theory Spec2Isabelle
  imports Complex_Main
begin

section \<open>Python sequence primitives\<close>

text \<open>
  The source is Python. Its \<open>str\<close> values are modelled as \<open>string\<close>, one \<open>char\<close> per
  character (so texts over the code points 0..255), and its unbounded integers as \<open>int\<close>.
  Slicing and \<open>str.find\<close> accept any integer bounds: a negative bound counts from the end
  of the sequence and every bound is clipped to the sequence, which \<open>norm_index\<close> writes out.
\<close>

definition norm_index :: "int \<Rightarrow> int \<Rightarrow> int" where
  "norm_index n i = (if i < 0 then max (n + i) 0 else min i n)"

text \<open>\<open>xs[i:j]\<close>\<close>

definition py_slice :: "'a list \<Rightarrow> int \<Rightarrow> int \<Rightarrow> 'a list" where
  "py_slice xs i j =
     (let n = int (length xs); s = norm_index n i; e = norm_index n j
      in take (nat (e - s)) (drop (nat s) xs))"

text \<open>\<open>xs.find(c, i, j)\<close> for a single character \<open>c\<close>: the lowest index of \<open>c\<close> inside
  \<open>xs[i:j]\<close>, or \<open>-1\<close>.\<close>

definition py_find :: "'a list \<Rightarrow> 'a \<Rightarrow> int \<Rightarrow> int \<Rightarrow> int" where
  "py_find xs c i j =
     (let window = py_slice xs i j
      in if c \<in> set window
         then norm_index (int (length xs)) i + int (length (takeWhile (\<lambda>x. x \<noteq> c) window))
         else - 1)"

text \<open>\<open>str.isspace\<close> on one character: the whitespace code points below 256.\<close>

definition py_isspace :: "char \<Rightarrow> bool" where
  "py_isspace c = (of_char c \<in> {9::nat, 10, 11, 12, 13, 28, 29, 30, 31, 32, 133, 160})"

text \<open>\<open>s.strip()\<close>\<close>

definition py_strip :: "string \<Rightarrow> string" where
  "py_strip s = rev (dropWhile py_isspace (rev (dropWhile py_isspace s)))"


section \<open>Text chunking (\<open>src/utils/text_processing.py\<close>)\<close>

text \<open>
  \<open>window_end\<close> is the value of \<open>end\<close> after the sentence-boundary nudge of one loop
  iteration of \<open>chunk_text\<close>: \<open>end = start + chunk_size\<close>, and when that lies inside the
  text, the first period found in \<open>text[end - 100 : end + 100]\<close> moves \<open>end\<close> just behind it.
\<close>

definition window_end :: "string \<Rightarrow> int \<Rightarrow> int \<Rightarrow> int" where
  "window_end text chunk_size start =
     (let end' = start + chunk_size
      in if end' < int (length text)
         then (let next_period = py_find text CHR ''.'' (end' - 100) (end' + 100)
               in if next_period \<noteq> - 1 then next_period + 1 else end')
         else end')"

text \<open>
  The \<open>while start < len(text)\<close> loop. Nothing in the source bounds the number of
  iterations, so the loop is a partial function: \<open>None\<close> is a loop that never returns.
\<close>

partial_function (option) chunk_loop ::
  "string \<Rightarrow> int \<Rightarrow> int \<Rightarrow> int \<Rightarrow> string list \<Rightarrow> string list option" where
  "chunk_loop text chunk_size overlap start chunks =
     (if start < int (length text)
      then (let end' = window_end text chunk_size start;
                chunk = py_strip (py_slice text start end');
                chunks' = (if chunk \<noteq> [] then chunks @ [chunk] else chunks)
            in chunk_loop text chunk_size overlap (end' - overlap) chunks')
      else Some chunks)"

declare chunk_loop.simps [code]

definition chunk_text :: "string \<Rightarrow> int \<Rightarrow> int \<Rightarrow> string list option" where
  "chunk_text text chunk_size overlap =
     (if text = [] \<or> int (length text) \<le> chunk_size
      then Some (if text \<noteq> [] then [text] else [])
      else chunk_loop text chunk_size overlap 0 [])"




section \<open>More Python string primitives\<close>

text \<open>\<open>str.upper\<close> and \<open>str.lower\<close>, on the ASCII letters (the role names and keywords the
  source applies them to are ASCII).\<close>

definition py_upper :: "string \<Rightarrow> string" where
  "py_upper s = map (\<lambda>c. if (97::nat) \<le> of_char c \<and> of_char c \<le> (122::nat)
                          then char_of (of_char c - (32::nat)) else c) s"

definition py_lower :: "string \<Rightarrow> string" where
  "py_lower s = map (\<lambda>c. if (65::nat) \<le> of_char c \<and> of_char c \<le> (90::nat)
                          then char_of (of_char c + (32::nat)) else c) s"

text \<open>\<open>sep.join(parts)\<close>\<close>

fun py_join :: "string \<Rightarrow> string list \<Rightarrow> string" where
  "py_join sep [] = []"
| "py_join sep [p] = p"
| "py_join sep (p # q # ps) = p @ sep @ py_join sep (q # ps)"

text \<open>\<open>sub in s\<close> for strings\<close>

fun py_contains :: "string \<Rightarrow> string \<Rightarrow> bool" where
  "py_contains sub [] = (sub = [])"
| "py_contains sub (c # cs) = (take (length sub) (c # cs) = sub \<or> py_contains sub cs)"

text \<open>\<open>str(n)\<close> for a natural number\<close>

fun py_str_nat :: "nat \<Rightarrow> string" where
  "py_str_nat n = (if n < 10 then [char_of (48 + n)]
                   else py_str_nat (n div 10) @ [char_of (48 + n mod 10)])"

text \<open>
  An exception is a value carrying its message; a computation that may raise returns
  \<open>error + 'a\<close>, with \<open>Inl\<close> for the exception.
\<close>

datatype error = Error string

text \<open>
  The chat completion \<open>AzureOpenAIClient.generate_response\<close> is an external service: a
  parameter that maps the list of (role, content) messages sent to the reply, or raises.
\<close>

type_synonym llm = "(string \<times> string) list \<Rightarrow> error + string"


section \<open>Conversation memory (\<open>src/memory/conversation_memory.py\<close>)\<close>

record message =
  role :: string
  content :: string
  timestamp :: string

record ConversationMemory =
  messages :: "message list"
  summary :: "string option"
  message_count :: int

definition ConversationMemory_init :: ConversationMemory where
  "ConversationMemory_init = \<lparr>messages = [], summary = None, message_count = 0\<rparr>"

definition summary_prompt :: "string \<Rightarrow> string" where
  "summary_prompt conversation_text =
     ''Summarize the following conversation, focusing on:\<newline>'' @
     ''1. Key topics discussed\<newline>'' @
     ''2. Important information shared\<newline>'' @
     ''3. User preferences or patterns\<newline>'' @
     ''4. Any pending tasks or follow-ups\<newline>\<newline>'' @
     ''Conversation:\<newline>'' @ conversation_text @ ''\<newline>\<newline>'' @
     ''Provide a concise summary (max 500 words):''"

definition combined_prompt :: "string \<Rightarrow> string \<Rightarrow> string" where
  "combined_prompt old_summary new_summary =
     ''Previous summary: '' @ old_summary @ ''\<newline>\<newline>'' @
     ''New conversation summary: '' @ new_summary @ ''\<newline>\<newline>'' @
     ''Provide a unified summary that combines both:''"

text \<open>
  The body of the coroutine \<open>_summarize_and_compress\<close>: what awaiting it does to the
  memory. Every exception inside is caught and logged, and the fields are assigned only
  after the replies have arrived, so a failed call leaves the memory as it was.
\<close>

definition summarize_and_compress :: "int \<Rightarrow> llm \<Rightarrow> ConversationMemory \<Rightarrow> ConversationMemory" where
  "summarize_and_compress summarization_threshold generate_response m =
     (if int (length (messages m)) < summarization_threshold then m
      else
        let split_point = int (length (messages m)) - 10;
            old_messages = py_slice (messages m) 0 split_point;
            recent_messages = py_slice (messages m) split_point (int (length (messages m)));
            conversation_text =
              py_join ''\<newline>\<newline>''
                (map (\<lambda>msg. py_upper (role msg) @ '': '' @ content msg) old_messages)
        in case generate_response
                  [(''system'', ''You are a helpful assistant that summarizes conversations concisely.''),
                   (''user'', summary_prompt conversation_text)] of
             Inl e \<Rightarrow> m
           | Inr new_summary \<Rightarrow>
               (if summary m \<noteq> None \<and> summary m \<noteq> Some []
                then (case generate_response
                             [(''system'', ''You are a helpful assistant that creates unified summaries.''),
                              (''user'', combined_prompt (the (summary m)) new_summary)] of
                        Inl e \<Rightarrow> m
                      | Inr unified \<Rightarrow>
                          \<lparr>messages = recent_messages, summary = Some unified,
                           message_count = int (length recent_messages)\<rparr>)
                else \<lparr>messages = recent_messages, summary = Some new_summary,
                      message_count = int (length recent_messages)\<rparr>))"

text \<open>
  Calling an \<open>async def\<close> function runs none of its body: the call returns a coroutine
  object, and the body runs only when the coroutine is awaited. A coroutine over the
  memory is modelled as the state transformer that awaiting it would apply.
\<close>

datatype 's coroutine = Coroutine "'s \<Rightarrow> 's"

fun await :: "'s coroutine \<Rightarrow> 's \<Rightarrow> 's" where
  "await (Coroutine body) s = body s"

text \<open>A coroutine object that is created and dropped without being awaited.\<close>

fun never_awaited :: "'s coroutine \<Rightarrow> 's \<Rightarrow> 's" where
  "never_awaited (Coroutine body) s = s"

text \<open>
  \<open>add_message\<close> is a plain \<open>def\<close>: its statement \<open>self._summarize_and_compress()\<close>
  creates the coroutine and drops it. \<open>now\<close> is the clock reading
  \<open>datetime.now().isoformat()\<close>.
\<close>

definition add_message ::
  "int \<Rightarrow> llm \<Rightarrow> string \<Rightarrow> string \<Rightarrow> string \<Rightarrow> ConversationMemory \<Rightarrow> ConversationMemory" where
  "add_message summarization_threshold generate_response now role' content' m =
     (let message = \<lparr>role = role', content = content', timestamp = now\<rparr>;
          m1 = m\<lparr>messages := messages m @ [message], message_count := message_count m + 1\<rparr>
      in if message_count m1 \<ge> summarization_threshold
         then never_awaited (Coroutine (summarize_and_compress summarization_threshold generate_response)) m1
         else m1)"

text \<open>A sequence of \<open>add_message\<close> calls, one per (role, content) pair.\<close>

definition add_messages ::
  "int \<Rightarrow> llm \<Rightarrow> string \<Rightarrow> (string \<times> string) list \<Rightarrow> ConversationMemory \<Rightarrow> ConversationMemory" where
  "add_messages summarization_threshold generate_response now turns m =
     fold (\<lambda>(r, c). add_message summarization_threshold generate_response now r c) turns m"


section \<open>Vector store (\<open>src/memory/vector_store.py\<close>)\<close>

text \<open>
  A metadata value of a stored document: ChromaDB accepts strings, numbers and booleans.
\<close>

datatype mval = MStr string | MInt int | MBool bool

type_synonym metadata = "string \<rightharpoonup> mval"

record 'e vdoc =
  doc_id :: string
  document :: string
  embedding :: "'e"
  doc_metadata :: metadata

text \<open>
  The state of a \<open>VectorStore\<close>: the documents of the persistent ChromaDB collection
  (\<open>None\<close> when the collection behind the handle has been deleted, where \<open>count()\<close> raises
  "does not exist"), and the number of UUIDs drawn so far.
\<close>

record 'e VectorStore =
  collection :: "'e vdoc list option"
  uuid_drawn :: nat

text \<open>
  The services outside the repository: the embedding endpoint (which may raise), the
  distance of the index (cosine, by the collection's metadata), the random source behind
  \<open>uuid.uuid4().hex\<close> and the clock behind \<open>datetime.now().isoformat()\<close>.
\<close>

record 'e env =
  generate_embedding :: "string \<Rightarrow> error + 'e"
  distance :: "'e \<Rightarrow> 'e \<Rightarrow> real"
  uuid4_hex :: "nat \<Rightarrow> string"
  now_iso :: string

text \<open>A ChromaDB \<open>where\<close> clause: equality on one key, or \<open>$and\<close> of clauses.\<close>

datatype where_filter = WEq string mval | WAnd "where_filter list"

fun matches :: "metadata \<Rightarrow> where_filter \<Rightarrow> bool" where
  "matches md (WEq k v) = (md k = Some v)"
| "matches md (WAnd fs) = list_all (matches md) fs"

text \<open>
  ChromaDB is a third-party library. \<open>chroma_get\<close> is \<open>collection.get(where=w, limit=n)\<close>:
  the first \<open>n\<close> documents matching \<open>w\<close>. \<open>chroma_query\<close> is
  \<open>collection.query(query_embeddings=[q], n_results=n, where=w)\<close>: the \<open>n\<close> documents
  nearest to \<open>q\<close> among those matching \<open>w\<close>, as one row of parallel arrays.
\<close>

definition chroma_get :: "'e vdoc list \<Rightarrow> where_filter \<Rightarrow> nat \<Rightarrow> 'e vdoc list" where
  "chroma_get docs w n = take n (filter (\<lambda>d. matches (doc_metadata d) w) docs)"

record query_result =
  ids :: "string list list"
  documents :: "string list list"
  metadatas :: "metadata list list"
  distances :: "real list list"

definition chroma_query ::
  "'e env \<Rightarrow> 'e vdoc list \<Rightarrow> 'e \<Rightarrow> int \<Rightarrow> where_filter option \<Rightarrow> query_result" where
  "chroma_query ev docs q n w =
     (let candidates = (case w of None \<Rightarrow> docs
                        | Some f \<Rightarrow> filter (\<lambda>d. matches (doc_metadata d) f) docs);
          hits = take (nat n) (sort_key (\<lambda>d. distance ev q (embedding d)) candidates)
      in \<lparr>ids = [map doc_id hits], documents = [map document hits],
          metadatas = [map doc_metadata hits],
          distances = [map (\<lambda>d. distance ev q (embedding d)) hits]\<rparr>)"

text \<open>\<open>_ensure_collection_exists\<close>: a deleted collection is created again, empty.\<close>

definition ensure_collection_exists :: "'e VectorStore \<Rightarrow> 'e VectorStore" where
  "ensure_collection_exists vs =
     (case collection vs of None \<Rightarrow> vs\<lparr>collection := Some []\<rparr> | Some docs \<Rightarrow> vs)"

text \<open>\<open>self.collection.add(...)\<close> of one document.\<close>

definition collection_add :: "'e vdoc \<Rightarrow> 'e VectorStore \<Rightarrow> 'e VectorStore" where
  "collection_add d vs =
     vs\<lparr>collection := Some ((case collection vs of None \<Rightarrow> [] | Some docs \<Rightarrow> docs) @ [d])\<rparr>"

record attachment =
  filename :: "string option"
  mime_type :: "string option"

text \<open>
  A value of \<open>additional_metadata\<close>: a list (joined with commas), \<open>None\<close> (stored as the
  empty string) or a plain value.
\<close>

datatype aval = AVal mval | AStrs "string list" | ANone

fun coerce_metadata_value :: "aval \<Rightarrow> mval" where
  "coerce_metadata_value (AStrs vs) = MStr (py_join '','' vs)"
| "coerce_metadata_value ANone = MStr ''''"
| "coerce_metadata_value (AVal v) = v"

definition merge_additional :: "(string \<times> aval) list \<Rightarrow> metadata \<Rightarrow> metadata" where
  "merge_additional additional md =
     fold (\<lambda>(key, value) m. m(key \<mapsto> coerce_metadata_value value)) additional md"

definition email_metadata ::
  "'e env \<Rightarrow> string \<Rightarrow> string \<Rightarrow> string \<Rightarrow> string \<Rightarrow> string \<Rightarrow> string list \<Rightarrow>
   attachment list \<Rightarrow> string option \<Rightarrow> (string \<times> aval) list \<Rightarrow> metadata" where
  "email_metadata ev email_id subject sender recipients date labels attachments thread_id additional =
     (let md0 = [''email_id'' \<mapsto> MStr email_id,
                 ''subject'' \<mapsto> MStr subject,
                 ''sender'' \<mapsto> MStr sender,
                 ''recipients'' \<mapsto> MStr recipients,
                 ''date'' \<mapsto> MStr date,
                 ''labels'' \<mapsto> MStr (py_join '','' labels),
                 ''has_attachments'' \<mapsto> MBool (attachments \<noteq> []),
                 ''attachment_count'' \<mapsto> MInt (int (length attachments)),
                 ''thread_id'' \<mapsto> MStr (case thread_id of None \<Rightarrow> '''' | Some t \<Rightarrow> t),
                 ''indexed_at'' \<mapsto> MStr (now_iso ev),
                 ''content_type'' \<mapsto> MStr ''email''];
          md1 = (if attachments \<noteq> []
                 then md0(''attachment_names'' \<mapsto>
                        MStr (py_join '','' (map (\<lambda>att. case filename att of None \<Rightarrow> ''''
                                                         | Some f \<Rightarrow> f) attachments)))
                 else md0)
      in merge_additional additional md1)"

text \<open>
  \<open>add_email\<close> returns the new document id or re-raises, next to the store as the call
  leaves it. An embedding failure raises before anything is added.
\<close>

definition add_email ::
  "'e env \<Rightarrow> string \<Rightarrow> string \<Rightarrow> string \<Rightarrow> string \<Rightarrow> string \<Rightarrow> string \<Rightarrow> string list \<Rightarrow>
   attachment list \<Rightarrow> string option \<Rightarrow> (string \<times> aval) list \<Rightarrow> 'e VectorStore \<Rightarrow>
   (error + string) \<times> 'e VectorStore" where
  "add_email ev email_id subject body sender recipients date labels attachments thread_id
             additional_metadata vs =
     (let vs1 = ensure_collection_exists vs;
          combined_text = ''Subject: '' @ subject @ ''\<newline>\<newline>From: '' @ sender
                          @ ''\<newline>\<newline>Body: '' @ body
      in case generate_embedding ev combined_text of
           Inl e \<Rightarrow> (Inl e, vs1)
         | Inr emb \<Rightarrow>
             (let md = email_metadata ev email_id subject sender recipients date labels
                         attachments thread_id additional_metadata;
                  new_id = ''email_'' @ email_id @ ''_'' @ take 8 (uuid4_hex ev (uuid_drawn vs1));
                  vs2 = vs1\<lparr>uuid_drawn := uuid_drawn vs1 + 1\<rparr>
              in (Inr new_id,
                  collection_add \<lparr>doc_id = new_id, document = combined_text,
                                  embedding = emb, doc_metadata = md\<rparr> vs2)))"

text \<open>\<open>add_conversation\<close>: the only writer of documents with \<open>content_type = "conversation"\<close>.\<close>

definition add_conversation ::
  "'e env \<Rightarrow> string \<Rightarrow> string \<Rightarrow> string \<Rightarrow> string \<Rightarrow> (string \<times> mval) list \<Rightarrow> 'e VectorStore \<Rightarrow>
   (error + string) \<times> 'e VectorStore" where
  "add_conversation ev conversation_text user_query assistant_response timestamp'
                    additional_metadata vs =
     (let vs1 = ensure_collection_exists vs
      in case generate_embedding ev conversation_text of
           Inl e \<Rightarrow> (Inl e, vs1)
         | Inr emb \<Rightarrow>
             (let md0 = [''user_query'' \<mapsto> MStr (take 500 user_query),
                         ''assistant_response'' \<mapsto> MStr (take 500 assistant_response),
                         ''timestamp'' \<mapsto> MStr timestamp',
                         ''content_type'' \<mapsto> MStr ''conversation'',
                         ''indexed_at'' \<mapsto> MStr (now_iso ev)];
                  md = fold (\<lambda>(key, value) m. m(key \<mapsto> value)) additional_metadata md0;
                  new_id = ''conv_'' @ uuid4_hex ev (uuid_drawn vs1);
                  vs2 = vs1\<lparr>uuid_drawn := uuid_drawn vs1 + 1\<rparr>
              in (Inr new_id,
                  collection_add \<lparr>doc_id = new_id, document = conversation_text,
                                  embedding = emb, doc_metadata = md\<rparr> vs2)))"

definition empty_result :: query_result where
  "empty_result = \<lparr>ids = [[]], documents = [[]], metadatas = [[]], distances = [[]]\<rparr>"

text \<open>The parameters \<open>semantic_search\<close> hands to \<open>collection.query\<close>.\<close>

record query_params =
  n_results :: int
  where_clause :: "where_filter option"

text \<open>
  \<open>semantic_search\<close>. The body inside \<open>try\<close> may raise (the embedding call); the handler
  turns every exception into the empty result. Next to the result the model returns the
  store (the collection may have been created again) and the list of the queries sent to
  the index.
\<close>

definition semantic_search_body ::
  "'e env \<Rightarrow> string \<Rightarrow> int \<Rightarrow> where_filter option \<Rightarrow> 'e VectorStore \<Rightarrow>
   (error + query_result) \<times> 'e VectorStore \<times> query_params list" where
  "semantic_search_body ev query n filter_metadata vs =
     (let vs1 = ensure_collection_exists vs;
          docs = (case collection vs1 of None \<Rightarrow> [] | Some ds \<Rightarrow> ds);
          collection_count = int (length docs)
      in if collection_count = 0 then (Inr empty_result, vs1, [])
         else case generate_embedding ev query of
                Inl e \<Rightarrow> (Inl e, vs1, [])
              | Inr query_embedding \<Rightarrow>
                  (let actual_n_results = max 1 (min n collection_count);
                       params = \<lparr>n_results = actual_n_results, where_clause = filter_metadata\<rparr>
                   in (Inr (chroma_query ev docs query_embedding (n_results params)
                              (where_clause params)), vs1, [params])))"

definition semantic_search ::
  "'e env \<Rightarrow> string \<Rightarrow> int \<Rightarrow> where_filter option \<Rightarrow> 'e VectorStore \<Rightarrow>
   query_result \<times> 'e VectorStore \<times> query_params list" where
  "semantic_search ev query n filter_metadata vs =
     (case semantic_search_body ev query n filter_metadata vs of
        (Inl e, vs', sent) \<Rightarrow> (empty_result, vs', sent)
      | (Inr results, vs', sent) \<Rightarrow> (results, vs', sent))"

text \<open>
  \<open>clear_all_data\<close>: delete the collection and create it again. Deleting a collection
  that does not exist raises, and the exception is raised again to the caller.
\<close>

definition clear_all_data :: "'e VectorStore \<Rightarrow> error option \<times> 'e VectorStore" where
  "clear_all_data vs =
     (case collection vs of
        None \<Rightarrow> (Some (Error ''Collection does not exist''), vs)
      | Some docs \<Rightarrow> (None, vs\<lparr>collection := Some []\<rparr>))"


section \<open>Email full-body storage (\<open>src/memory/email_storage.py\<close>)\<close>

record stored_email =
  se_email_id :: string
  se_subject :: string
  se_sender :: string
  se_recipients :: string
  se_cc :: string
  se_date :: string
  se_body_text :: string
  se_body_html :: string
  se_attachments :: "attachment list"
  se_labels :: "string list"
  se_thread_id :: string
  se_summary :: string
  se_category :: string
  se_stored_at :: string

text \<open>
  The dictionary \<open>_storage\<close> and the content of the JSON file behind it. Writing the
  file may fail (\<open>writable\<close>); \<open>_save_storage\<close> logs the failure and goes on.
\<close>

record EmailStorage =
  storage :: "string \<rightharpoonup> stored_email"
  storage_file :: "string \<rightharpoonup> stored_email"

definition save_storage :: "bool \<Rightarrow> EmailStorage \<Rightarrow> EmailStorage" where
  "save_storage writable es = (if writable then es\<lparr>storage_file := storage es\<rparr> else es)"

definition get_email :: "EmailStorage \<Rightarrow> string \<Rightarrow> stored_email option" where
  "get_email es email_id = storage es email_id"

definition has_email :: "EmailStorage \<Rightarrow> string \<Rightarrow> bool" where
  "has_email es email_id = (email_id \<in> dom (storage es))"

definition delete_email :: "bool \<Rightarrow> string \<Rightarrow> EmailStorage \<Rightarrow> EmailStorage" where
  "delete_email writable email_id es =
     (if email_id \<in> dom (storage es)
      then save_storage writable (es\<lparr>storage := (storage es)(email_id := None)\<rparr>)
      else es)"

definition clear_all :: "bool \<Rightarrow> EmailStorage \<Rightarrow> EmailStorage" where
  "clear_all writable es = save_storage writable (es\<lparr>storage := Map.empty\<rparr>)"


section \<open>Clearing one store (\<open>EmailAssistant.clear_vector_db\<close>, \<open>AutonomousEmailAgent.clear_email_storage\<close>)\<close>

text \<open>
  The two stores an assistant works on: the vector store behind its memory manager and
  the full-body storage.
\<close>

record 'e stores =
  vector_store :: "'e VectorStore"
  email_storage :: EmailStorage

definition clear_vector_db :: "'e stores \<Rightarrow> error option \<times> 'e stores" where
  "clear_vector_db st =
     (case clear_all_data (vector_store st) of
        (outcome, vs') \<Rightarrow> (outcome, st\<lparr>vector_store := vs'\<rparr>))"

definition clear_email_storage :: "bool \<Rightarrow> 'e stores \<Rightarrow> 'e stores" where
  "clear_email_storage writable st = st\<lparr>email_storage := clear_all writable (email_storage st)\<rparr>"


section \<open>Email indexer (\<open>src/services/email_indexer.py\<close>)\<close>

text \<open>
  The dictionary \<open>GmailClient.parse_message\<close> builds, with the keys the indexer reads.
\<close>

record parsed_email =
  pe_id :: string
  pe_thread_id :: string
  pe_labels :: "string list"
  pe_subject :: string
  pe_from :: string
  pe_to :: string
  pe_cc :: string
  pe_date :: string
  pe_body_text :: string
  pe_body_html :: string
  pe_attachments :: "attachment list"

text \<open>
  The services of an indexing pass: the ids \<open>list_messages\<close> returns, \<open>get_message\<close>
  followed by \<open>parse_message\<close> (no message, a parsed message, or an exception),
  \<open>_generate_email_summary\<close> (which catches every exception of the chat completion and
  always returns a string), and whether the storage file can be written.
\<close>

record indexer_services =
  list_messages :: "string list"
  fetch_message :: "string \<Rightarrow> error + parsed_email option"
  generate_email_summary :: "parsed_email \<Rightarrow> string"
  storage_writable :: bool

text \<open>\<open>_categorize_email\<close>: the first category with a keyword in the lowered text, then the labels.\<close>

definition category_keywords :: "(string \<times> string list) list" where
  "category_keywords =
     [(''placement'', [''placement'', ''campus'', ''recruitment'', ''job'', ''interview'',
                       ''company visit'', ''hiring'']),
      (''academic'', [''exam'', ''assignment'', ''class'', ''lecture'', ''course'', ''semester'',
                      ''grade'']),
      (''meeting'', [''meeting'', ''schedule'', ''calendar'', ''conference'', ''zoom'', ''teams'']),
      (''notification'', [''notification'', ''alert'', ''reminder'', ''update'', ''announcement'']),
      (''personal'', [''personal'', ''family'', ''friend'']),
      (''work'', [''project'', ''deadline'', ''task'', ''report'', ''work'', ''office''])]"

definition categorize_email :: "string \<Rightarrow> string \<Rightarrow> string list \<Rightarrow> string" where
  "categorize_email subject body labels =
     (let text = py_lower (subject @ '' '' @ body)
      in case filter (\<lambda>(category, kws). list_ex (\<lambda>keyword. py_contains keyword text) kws)
                category_keywords of
           (category, kws) # rest \<Rightarrow> category
         | [] \<Rightarrow>
             (if ''CATEGORY_PROMOTIONS'' \<in> set labels then ''promotional''
              else if ''CATEGORY_SOCIAL'' \<in> set labels then ''social''
              else if ''CATEGORY_UPDATES'' \<in> set labels then ''updates''
              else ''general''))"

text \<open>\<open>len(s.split())\<close>: the number of maximal runs of non-whitespace characters.\<close>

fun count_words :: "bool \<Rightarrow> string \<Rightarrow> nat" where
  "count_words after_space [] = 0"
| "count_words after_space (c # cs) =
     (if py_isspace c then count_words True cs
      else (if after_space then 1 else 0) + count_words False cs)"

definition word_count :: "string \<Rightarrow> int" where
  "word_count s = int (count_words True s)"

text \<open>\<open>s.split(sep)[0]\<close> and, when \<open>sep\<close> occurs, \<open>s.split(sep)[1]\<close>, for a one-character separator.\<close>

definition split_first :: "char \<Rightarrow> string \<Rightarrow> string" where
  "split_first sep s = takeWhile (\<lambda>c. c \<noteq> sep) s"

definition split_second :: "char \<Rightarrow> string \<Rightarrow> string" where
  "split_second sep s = takeWhile (\<lambda>c. c \<noteq> sep) (drop 1 (dropWhile (\<lambda>c. c \<noteq> sep) s))"

text \<open>
  The attachment types: the part before the slash of every non-empty MIME type, without
  duplicates (the source goes through a \<open>set\<close>, whose order is not fixed; the model keeps
  the order of first occurrence).
\<close>

definition attachment_types :: "attachment list \<Rightarrow> string list" where
  "attachment_types atts =
     remdups (map (\<lambda>att. split_first CHR ''/'' (case mime_type att of None \<Rightarrow> '''' | Some m \<Rightarrow> m))
                (filter (\<lambda>att. mime_type att \<noteq> None \<and> mime_type att \<noteq> Some '''') atts))"

definition enhanced_metadata :: "parsed_email \<Rightarrow> string \<Rightarrow> (string \<times> aval) list" where
  "enhanced_metadata p summary' =
     (let subject = pe_subject p; body = pe_body_text p; sender = pe_from p;
          labels = pe_labels p; attachments = pe_attachments p
      in [(''summary'', AVal (MStr summary')),
          (''has_attachment'', AVal (MBool (attachments \<noteq> []))),
          (''attachment_count'', AVal (MInt (int (length attachments)))),
          (''attachment_types'', AVal (MStr (py_join '','' (attachment_types attachments)))),
          (''word_count'', AVal (MInt (word_count body))),
          (''char_count'', AVal (MInt (int (length body)))),
          (''is_reply'', AVal (MBool (py_contains ''Re:'' subject \<or> py_contains ''RE:'' subject))),
          (''is_forward'', AVal (MBool (py_contains ''Fwd:'' subject \<or> py_contains ''FWD:'' subject))),
          (''priority'', AVal (MBool (''IMPORTANT'' \<in> set labels \<or> ''STARRED'' \<in> set labels))),
          (''category'', AVal (MStr (categorize_email subject body labels))),
          (''has_html'', AVal (MBool (pe_body_html p \<noteq> []))),
          (''sender_domain'', AVal (MStr (if CHR ''@'' \<in> set sender
                                           then split_second CHR ''@'' sender else ''''))),
          (''is_chunked'', AVal (MBool False)),
          (''original_email_id'', AVal (MStr (pe_id p)))])"

text \<open>\<open>{**enhanced_metadata, ...}\<close>: the later entries override the earlier ones.\<close>

definition chunk_metadata ::
  "parsed_email \<Rightarrow> string \<Rightarrow> nat \<Rightarrow> nat \<Rightarrow> string \<Rightarrow> (string \<times> aval) list" where
  "chunk_metadata p summary' i n_chunks chunk =
     enhanced_metadata p summary'
     @ [(''is_chunked'', AVal (MBool True)),
        (''chunk_index'', AVal (MInt (int i))),
        (''total_chunks'', AVal (MInt (int n_chunks))),
        (''original_email_id'', AVal (MStr (pe_id p))),
        (''chunk_word_count'', AVal (MInt (word_count chunk)))]"

text \<open>
  The loop over the chunks of a long body: chunk \<open>i\<close> is added under the email id
  \<open><id>_chunk_<i>\<close>. An exception of \<open>add_email\<close> ends the loop and is raised again; the
  chunks added before it stay in the store.
\<close>

fun add_chunks ::
  "'e env \<Rightarrow> parsed_email \<Rightarrow> string \<Rightarrow> nat \<Rightarrow> nat \<Rightarrow> string list \<Rightarrow> 'e VectorStore \<Rightarrow>
   error option \<times> 'e VectorStore" where
  "add_chunks ev p summary' n_chunks i [] vs = (None, vs)"
| "add_chunks ev p summary' n_chunks i (chunk # rest) vs =
     (case add_email ev (pe_id p @ ''_chunk_'' @ py_str_nat i) (pe_subject p) chunk (pe_from p)
             (pe_to p) (pe_date p) (pe_labels p) (pe_attachments p) (Some (pe_thread_id p))
             (chunk_metadata p summary' i n_chunks chunk) vs of
        (Inl e, vs') \<Rightarrow> (Some e, vs')
      | (Inr new_id, vs') \<Rightarrow> add_chunks ev p summary' n_chunks (i + 1) rest vs')"

text \<open>
  \<open>_index_email_with_metadata\<close>. The result is \<open>None\<close> when \<open>chunk_text\<close> does not return;
  otherwise the exception raised (if any) and the store.
\<close>

definition index_email_with_metadata ::
  "'e env \<Rightarrow> parsed_email \<Rightarrow> string \<Rightarrow> 'e VectorStore \<Rightarrow> (error option \<times> 'e VectorStore) option" where
  "index_email_with_metadata ev p summary' vs =
     (if 1500 < length (pe_body_text p)
      then (case chunk_text (pe_body_text p) 1200 150 of
              None \<Rightarrow> None
            | Some chunks \<Rightarrow> Some (add_chunks ev p summary' (length chunks) 0 chunks vs))
      else (case add_email ev (pe_id p) (pe_subject p) (pe_body_text p) (pe_from p) (pe_to p)
                   (pe_date p) (pe_labels p) (pe_attachments p) (Some (pe_thread_id p))
                   (enhanced_metadata p summary') vs of
              (Inl e, vs') \<Rightarrow> Some (Some e, vs')
            | (Inr new_id, vs') \<Rightarrow> Some (None, vs')))"

text \<open>\<open>EmailStorage.store_email\<close>, from the parsed message with its summary and category.\<close>

definition store_email ::
  "bool \<Rightarrow> parsed_email \<Rightarrow> string \<Rightarrow> string \<Rightarrow> string \<Rightarrow> EmailStorage \<Rightarrow> EmailStorage" where
  "store_email writable p summary' category stored_at es =
     save_storage writable
       (es\<lparr>storage := (storage es)(pe_id p \<mapsto>
            \<lparr>se_email_id = pe_id p, se_subject = pe_subject p, se_sender = pe_from p,
             se_recipients = pe_to p, se_cc = pe_cc p, se_date = pe_date p,
             se_body_text = pe_body_text p, se_body_html = pe_body_html p,
             se_attachments = pe_attachments p, se_labels = pe_labels p,
             se_thread_id = pe_thread_id p, se_summary = summary', se_category = category,
             se_stored_at = stored_at\<rparr>)\<rparr>)"

text \<open>
  The dedupe check of \<open>run_indexing\<close>:
  \<open>collection.get(where={"email_id": parsed['id']}, limit=1)\<close> finds a document. On a
  collection that does not exist the query raises, which the source takes as "not found".
\<close>

definition already_indexed :: "'e VectorStore \<Rightarrow> string \<Rightarrow> bool" where
  "already_indexed vs email_id =
     (case collection vs of
        None \<Rightarrow> False
      | Some docs \<Rightarrow> chroma_get docs (WEq ''email_id'' (MStr email_id)) 1 \<noteq> [])"

record 'e indexer_state =
  ix_vector_store :: "'e VectorStore"
  ix_email_storage :: EmailStorage
  indexed_count :: nat
  skipped_count :: nat
  error_count :: nat

text \<open>The body of the loop of \<open>run_indexing\<close> for one listed message.\<close>

definition index_message ::
  "indexer_services \<Rightarrow> 'e env \<Rightarrow> string \<Rightarrow> 'e indexer_state \<Rightarrow> 'e indexer_state option" where
  "index_message isv ev msg_id st =
     (case fetch_message isv msg_id of
        Inl e \<Rightarrow> Some (st\<lparr>error_count := error_count st + 1\<rparr>)
      | Inr None \<Rightarrow> Some (st\<lparr>skipped_count := skipped_count st + 1\<rparr>)
      | Inr (Some parsed) \<Rightarrow>
          (if already_indexed (ix_vector_store st) (pe_id parsed)
           then Some (st\<lparr>skipped_count := skipped_count st + 1\<rparr>)
           else
             let summary' = generate_email_summary isv parsed;
                 category = categorize_email (pe_subject parsed) (pe_body_text parsed)
                              (pe_labels parsed);
                 es' = store_email (storage_writable isv) parsed summary' category (now_iso ev)
                         (ix_email_storage st)
             in case index_email_with_metadata ev parsed summary' (ix_vector_store st) of
                  None \<Rightarrow> None
                | Some (Some e, vs') \<Rightarrow>
                    Some (st\<lparr>ix_vector_store := vs', ix_email_storage := es',
                             error_count := error_count st + 1\<rparr>)
                | Some (None, vs') \<Rightarrow>
                    Some (st\<lparr>ix_vector_store := vs', ix_email_storage := es',
                             indexed_count := indexed_count st + 1\<rparr>)))"

fun index_messages ::
  "indexer_services \<Rightarrow> 'e env \<Rightarrow> string list \<Rightarrow> 'e indexer_state \<Rightarrow> 'e indexer_state option" where
  "index_messages isv ev [] st = Some st"
| "index_messages isv ev (msg_id # rest) st =
     (case index_message isv ev msg_id st of
        None \<Rightarrow> None
      | Some st' \<Rightarrow> index_messages isv ev rest st')"

text \<open>
  One pass of \<open>run_indexing\<close> over the two stores: the counters start at zero, and the
  statistics are read off the state returned.
\<close>

definition run_indexing ::
  "indexer_services \<Rightarrow> 'e env \<Rightarrow> 'e VectorStore \<Rightarrow> EmailStorage \<Rightarrow> 'e indexer_state option" where
  "run_indexing isv ev vs es =
     index_messages isv ev (list_messages isv)
       \<lparr>ix_vector_store = vs, ix_email_storage = es, indexed_count = 0, skipped_count = 0,
        error_count = 0\<rparr>"

text \<open>
  A mailbox with one message \<open>m1\<close> whose body is 1501 letters, and services that never
  fail.
\<close>

definition long_email :: parsed_email where
  "long_email =
     \<lparr>pe_id = ''m1'', pe_thread_id = ''t1'', pe_labels = [''INBOX''], pe_subject = ''Report'',
      pe_from = ''alice@example.com'', pe_to = ''bob@example.com'', pe_cc = '''',
      pe_date = ''2025-01-01'', pe_body_text = replicate 1501 CHR ''a'', pe_body_html = '''',
      pe_attachments = []\<rparr>"

definition one_long_email :: indexer_services where
  "one_long_email =
     \<lparr>list_messages = [''m1''], fetch_message = (\<lambda>msg_id. Inr (Some long_email)),
      generate_email_summary = (\<lambda>p. ''Email about: Report''), storage_writable = True\<rparr>"

definition plain_env :: "nat env" where
  "plain_env =
     \<lparr>generate_embedding = (\<lambda>s. Inr 0), distance = (\<lambda>a b. 0),
      uuid4_hex = (\<lambda>k. ''0123456789abcdef0123456789abcdef''), now_iso = ''2025-01-02T03:04:05''\<rparr>"

definition empty_vector_store :: "nat VectorStore" where
  "empty_vector_store = \<lparr>collection = Some [], uuid_drawn = 0\<rparr>"

definition empty_email_storage :: EmailStorage where
  "empty_email_storage = \<lparr>storage = Map.empty, storage_file = Map.empty\<rparr>"

text \<open>
  Readings of a state for the statements below: the \<open>email_id\<close> metadata of the stored
  documents, in order; the three counters of a pass; and a second pass run on the stores
  the first one leaves.
\<close>

definition indexed_email_ids :: "'e VectorStore \<Rightarrow> mval option list" where
  "indexed_email_ids vs =
     map (\<lambda>d. doc_metadata d ''email_id'') (case collection vs of None \<Rightarrow> [] | Some docs \<Rightarrow> docs)"

definition pass_counts :: "'e indexer_state \<Rightarrow> nat \<times> nat \<times> nat" where
  "pass_counts st = (indexed_count st, skipped_count st, error_count st)"

definition second_pass ::
  "indexer_services \<Rightarrow> 'e env \<Rightarrow> 'e indexer_state option \<Rightarrow> 'e indexer_state option" where
  "second_pass isv ev first =
     (case first of
        None \<Rightarrow> None
      | Some st \<Rightarrow> run_indexing isv ev (ix_vector_store st) (ix_email_storage st))"


section \<open>Decision engine (\<open>src/workflows/decision_engine.py\<close>)\<close>

text \<open>A value decoded by \<open>json.loads\<close>; an object is the list of its entries.\<close>

datatype json = JNull | JBool bool | JNum int | JStr string | JArr "json list"
  | JObj "(string \<times> json) list"

text \<open>Python truthiness of such a value.\<close>

fun py_truthy :: "json \<Rightarrow> bool" where
  "py_truthy JNull = False"
| "py_truthy (JBool b) = b"
| "py_truthy (JNum n) = (n \<noteq> 0)"
| "py_truthy (JStr s) = (s \<noteq> [])"
| "py_truthy (JArr xs) = (xs \<noteq> [])"
| "py_truthy (JObj kvs) = (kvs \<noteq> [])"

text \<open>\<open>value.get(key, dflt)\<close>: only a dictionary has \<open>get\<close>; anything else raises
  \<open>AttributeError\<close>.\<close>

fun dict_get :: "json \<Rightarrow> string \<Rightarrow> json \<Rightarrow> error + json" where
  "dict_get (JObj kvs) key dflt =
     Inr (case map_of kvs key of None \<Rightarrow> dflt | Some v \<Rightarrow> v)"
| "dict_get other key dflt = Inl (Error ''AttributeError: object has no attribute get'')"

text \<open>Sequencing of computations that may raise.\<close>

fun and_then :: "error + 'a \<Rightarrow> ('a \<Rightarrow> error + 'b) \<Rightarrow> error + 'b" where
  "and_then (Inl e) f = Inl e"
| "and_then (Inr x) f = f x"

record time_constraint =
  tc_after :: string
  tc_before :: "string option"
  tc_description :: string

text \<open>
  What the engine takes from outside the model: the regular-expression searches over the
  two pattern lists, the extractors built on regular expressions and on the clock (the
  time extractor builds a \<open>timedelta\<close> from digits of the query, which can overflow and
  raise), the chat completion, \<open>json.loads\<close> and \<open>str\<close> on a decoded value.
\<close>

record decision_services =
  check_email_search_patterns :: "string \<Rightarrow> bool"
  check_time_patterns :: "string \<Rightarrow> bool"
  extract_time_constraint :: "string \<Rightarrow> error + time_constraint option"
  extract_sender :: "string \<Rightarrow> string option"
  extract_keywords :: "string \<Rightarrow> string list"
  chat_completion :: llm
  json_loads :: "string \<Rightarrow> error + json"
  py_str :: "json \<Rightarrow> string"

definition analysis_request :: "string \<Rightarrow> (string \<times> string) list" where
  \<open>analysis_request query =
     [(''system'', ''You are a query analysis expert. Always respond with valid JSON.''),
      (''user'',
       ''Analyze this user query and determine:\<newline>'' @
       ''1. Does it require searching through emails? (yes/no)\<newline>'' @
       ''2. What is the user's intent? (search_emails, calendar_query, task_management, general_question)\<newline>'' @
       ''3. What specific information are they looking for?\<newline>\<newline>'' @
       ''Query: '' @ query @ ''\<newline>\<newline>'' @
       ''Respond in JSON format:\<newline>{\<newline>'' @
       ''    "requires_email_data": true/false,\<newline>'' @
       ''    "intent": "search_emails" or "calendar_query" or "task_management" or "general_question",\<newline>'' @
       ''    "specific_info": "brief description"\<newline>}'')]\<close>

text \<open>\<open>_semantic_analysis\<close>: any exception of the call or of the decoding gives the default.\<close>

definition semantic_analysis :: "decision_services \<Rightarrow> string \<Rightarrow> json" where
  "semantic_analysis svc query =
     (case and_then (chat_completion svc (analysis_request query)) (json_loads svc) of
        Inl e \<Rightarrow> JObj [(''requires_email_data'', JBool True), (''intent'', JStr ''search_emails'')]
      | Inr analysis \<Rightarrow> analysis)"

definition determine_search_scope :: "bool \<Rightarrow> time_constraint option \<Rightarrow> string \<Rightarrow> string" where
  "determine_search_scope has_time_constraint extracted_time query_lower =
     (if extracted_time \<noteq> None then ''time_constrained''
      else if has_time_constraint then ''recent''
      else if list_ex (\<lambda>word. py_contains word query_lower) [''all'', ''every'', ''entire'']
      then ''broad''
      else ''normal'')"

definition calculate_confidence :: "bool \<Rightarrow> json \<Rightarrow> error + real" where
  "calculate_confidence pattern_match semantic =
     and_then (dict_get semantic ''requires_email_data'' JNull) (\<lambda>requires.
       Inr (min ((0.5 + (if pattern_match then 0.3 else 0))
                 + (if py_truthy requires then 0.2 else 0)) 1.0))"

definition build_reasoning :: "decision_services \<Rightarrow> bool \<Rightarrow> bool \<Rightarrow> json \<Rightarrow> error + string" where
  "build_reasoning svc needs_email_search has_time_constraint semantic =
     and_then (dict_get semantic ''requires_email_data'' JNull) (\<lambda>requires.
     and_then (dict_get semantic ''intent'' (JStr ''unknown'')) (\<lambda>intent.
       let reasons =
             (if needs_email_search then [''Query matches email search patterns''] else [])
             @ (if has_time_constraint then [''Query has time constraints''] else [])
             @ (if py_truthy requires then [''Semantic analysis indicates email data needed''] else [])
             @ [''Intent classified as: '' @ py_str svc intent]
       in Inr (if reasons \<noteq> [] then py_join ''; '' reasons else ''Using default search behavior'')))"

record analysis_details =
  time_constraint :: "time_constraint option"
  sender_filter :: "string option"
  query_keywords :: "string list"
  search_scope :: string
  semantic_intent :: json

text \<open>
  The dictionary \<open>analyze_query\<close> returns. The fallback dictionary of the handler has the
  first four keys only (\<open>details = None\<close>). \<open>needs_rag\<close> is the value of the Python
  expression \<open>needs_email_search or semantic_analysis.get(...)\<close>, which need not be a
  boolean.
\<close>

record analysis =
  needs_rag :: json
  needs_search :: json
  confidence :: real
  reasoning :: string
  details :: "analysis_details option"

definition analyze_query_body :: "decision_services \<Rightarrow> string \<Rightarrow> error + analysis" where
  "analyze_query_body svc query =
     (let query_lower = py_lower query;
          needs_email_search = check_email_search_patterns svc query_lower;
          has_time_constraint = check_time_patterns svc query_lower
      in and_then (extract_time_constraint svc query) (\<lambda>extracted_time.
         let extracted_sender = extract_sender svc query;
             extracted_keywords = extract_keywords svc query;
             semantic = semantic_analysis svc query
         in and_then (dict_get semantic ''requires_email_data'' (JBool False)) (\<lambda>requires.
            let needs_rag' = (if needs_email_search then JBool True else requires);
                needs_search' = needs_rag';
                scope = determine_search_scope has_time_constraint extracted_time query_lower
            in and_then (calculate_confidence needs_email_search semantic) (\<lambda>conf.
               and_then (dict_get semantic ''intent'' (JStr ''unknown'')) (\<lambda>intent.
               and_then (build_reasoning svc needs_email_search has_time_constraint semantic)
                 (\<lambda>reasons.
                    Inr \<lparr>needs_rag = needs_rag', needs_search = needs_search',
                         confidence = conf, reasoning = reasons,
                         details = Some \<lparr>time_constraint = extracted_time,
                                         sender_filter = extracted_sender,
                                         query_keywords = extracted_keywords,
                                         search_scope = scope,
                                         semantic_intent = intent\<rparr>\<rparr>))))))"

definition analyze_query :: "decision_services \<Rightarrow> string \<Rightarrow> analysis" where
  "analyze_query svc query =
     (case analyze_query_body svc query of
        Inl e \<Rightarrow> \<lparr>needs_rag = JBool True, needs_search = JBool True, confidence = 0.5,
                  reasoning = ''Fallback to safe defaults due to analysis error'',
                  details = None\<rparr>
      | Inr result \<Rightarrow> result)"


section \<open>Base agent (\<open>src/agents/base_agent.py\<close>)\<close>




















section \<open>Execution planner (\<open>src/workflows/execution_planner.py\<close>)\<close>

datatype TaskStatus = PENDING | RUNNING | COMPLETED | FAILED | BLOCKED

record ('p, 'r) ExecutionTask =
  task_id :: string
  operation :: string
  parameters :: "'p"
  dependencies :: "string list"
  status :: TaskStatus
  result :: "'r option"
  task_error :: "string option"

text \<open>
  The tool executor: the method behind each operation name (\<open>hasattr\<close>/\<open>getattr\<close>), which
  returns a result or raises.
\<close>

type_synonym ('p, 'r) tool_executor = "string \<rightharpoonup> ('p \<Rightarrow> error + 'r)"

text \<open>
  \<open>execute_single_task\<close>: the task is \<open>RUNNING\<close> while its method runs and ends
  \<open>COMPLETED\<close> with the result, or \<open>FAILED\<close> with the message of the exception (the
  \<open>ValueError\<close> of a missing operation included).
\<close>

definition execute_single_task ::
  "('p, 'r) tool_executor \<Rightarrow> ('p, 'r) ExecutionTask \<Rightarrow> ('p, 'r) ExecutionTask" where
  "execute_single_task tool_executor task =
     (let running = task\<lparr>status := RUNNING\<rparr>
      in case tool_executor (operation running) of
           None \<Rightarrow> running\<lparr>task_error := Some (''Operation not found: '' @ operation running),
                            status := FAILED\<rparr>
         | Some method \<Rightarrow>
             (case method (parameters running) of
                Inl (Error msg) \<Rightarrow> running\<lparr>task_error := Some msg, status := FAILED\<rparr>
              | Inr res \<Rightarrow> running\<lparr>result := Some res, status := COMPLETED\<rparr>))"

text \<open>A task is ready when it is pending and all its dependencies are in \<open>completed_tasks\<close>.\<close>

definition is_ready :: "string set \<Rightarrow> ('p, 'r) ExecutionTask \<Rightarrow> bool" where
  "is_ready completed_tasks task =
     (status task = PENDING \<and> list_all (\<lambda>dep. dep \<in> completed_tasks) (dependencies task))"

text \<open>
  The variables of \<open>execute_plan\<close>: the task objects (in the order of the list given),
  \<open>completed_tasks\<close>, \<open>results\<close>, and a record of the waves run so far: for each wave the
  ids of its tasks and the task list as it was when the wave started.
\<close>

record ('p, 'r) plan_state =
  tasks :: "('p, 'r) ExecutionTask list"
  completed_tasks :: "string set"
  results :: "string \<rightharpoonup> 'r option"
  waves :: "(string list \<times> ('p, 'r) ExecutionTask list) list"

text \<open>
  \<open>_execute_parallel_tasks\<close> on the ready tasks: \<open>asyncio.gather\<close> runs each of them to
  its end, and a task only writes its own fields, so the wave is the list with every ready
  task executed.
\<close>

definition execute_parallel_tasks ::
  "('p, 'r) tool_executor \<Rightarrow> string set \<Rightarrow> ('p, 'r) ExecutionTask list \<Rightarrow> ('p, 'r) ExecutionTask list" where
  "execute_parallel_tasks tool_executor done_ids ts =
     map (\<lambda>t. if is_ready done_ids t then execute_single_task tool_executor t else t) ts"

text \<open>One wave: run the ready tasks, then record the completed ones.\<close>

definition wave_step :: "('p, 'r) tool_executor \<Rightarrow> ('p, 'r) plan_state \<Rightarrow> ('p, 'r) plan_state" where
  "wave_step tool_executor s =
     (let ready_tasks = filter (is_ready (completed_tasks s)) (tasks s);
          tasks' = execute_parallel_tasks tool_executor (completed_tasks s) (tasks s);
          finished = filter (\<lambda>t. status t = COMPLETED)
                       (map (execute_single_task tool_executor) ready_tasks)
      in \<lparr>tasks = tasks',
          completed_tasks = completed_tasks s \<union> set (map task_id finished),
          results = fold (\<lambda>t m. m(task_id t \<mapsto> result t)) finished (results s),
          waves = waves s @ [(map task_id ready_tasks, tasks s)]\<rparr>)"

text \<open>No task is ready: the tasks still pending are marked blocked.\<close>

definition mark_blocked :: "('p, 'r) plan_state \<Rightarrow> ('p, 'r) plan_state" where
  "mark_blocked s =
     (let pending_tasks = filter (\<lambda>t. status t = PENDING) (tasks s)
      in if pending_tasks \<noteq> []
         then s\<lparr>tasks := map (\<lambda>t. if status t = PENDING then t\<lparr>status := BLOCKED\<rparr> else t) (tasks s)\<rparr>
         else s)"

text \<open>
  The loop \<open>while len(completed_tasks) < len(tasks)\<close>. Each wave it runs takes at least
  one task out of the pending ones, which is the measure of its termination.
\<close>

function wave_loop :: "('p, 'r) tool_executor \<Rightarrow> ('p, 'r) plan_state \<Rightarrow> ('p, 'r) plan_state" where
  "wave_loop tool_executor s =
     (if card (completed_tasks s) < length (tasks s)
      then (if filter (is_ready (completed_tasks s)) (tasks s) = []
            then mark_blocked s
            else wave_loop tool_executor (wave_step tool_executor s))
      else s)"
  by pat_completeness auto
termination
proof (relation "measure (\<lambda>(ex, s). length (filter (\<lambda>t. status t = PENDING) (tasks s)))")
  show "wf (measure (\<lambda>(ex :: ('p, 'r) tool_executor, s :: ('p, 'r) plan_state).
              length (filter (\<lambda>t. status t = PENDING) (tasks s))))"
    by simp
next
  fix tool_executor :: "('p, 'r) tool_executor" and s :: "('p, 'r) plan_state"
  assume ready: "filter (is_ready (completed_tasks s)) (tasks s) \<noteq> []"
  have executed: "status (execute_single_task tool_executor t) \<noteq> PENDING" for t :: "('p, 'r) ExecutionTask"
    by (simp add: execute_single_task_def Let_def split: option.splits sum.splits error.splits)
  have le: "length (filter (\<lambda>t. status t = PENDING)
                (execute_parallel_tasks tool_executor c ts))
            \<le> length (filter (\<lambda>t. status t = PENDING) ts)"
    for c and ts :: "('p, 'r) ExecutionTask list"
    by (induction ts) (auto simp: execute_parallel_tasks_def executed is_ready_def)
  have less: "filter (is_ready c) ts \<noteq> [] \<Longrightarrow>
          length (filter (\<lambda>t. status t = PENDING) (execute_parallel_tasks tool_executor c ts))
            < length (filter (\<lambda>t. status t = PENDING) ts)"
    for c and ts :: "('p, 'r) ExecutionTask list"
  proof (induction ts)
    case Nil
    then show ?case by simp
  next
    case (Cons t ts)
    show ?case
    proof (cases "is_ready c t")
      case True
      then have "status t = PENDING" by (simp add: is_ready_def)
      with True le[of c ts] show ?thesis
        by (simp add: execute_parallel_tasks_def executed)
    next
      case False
      with Cons have "length (filter (\<lambda>t. status t = PENDING) (execute_parallel_tasks tool_executor c ts))
            < length (filter (\<lambda>t. status t = PENDING) ts)" by simp
      with False show ?thesis by (simp add: execute_parallel_tasks_def)
    qed
  qed
  show "((tool_executor, wave_step tool_executor s), (tool_executor, s))
          \<in> measure (\<lambda>(ex, s). length (filter (\<lambda>t. status t = PENDING) (tasks s)))"
    using less[OF ready] by (simp add: wave_step_def Let_def)
qed

declare wave_loop.simps [simp del]

text \<open>
  What \<open>execute_plan\<close> returns: the success flag and the counts, the results, and the
  report of each task; with it the model keeps the final task objects and the waves.
\<close>

record ('p, 'r) plan_result =
  success :: bool
  completed_count :: nat
  total_tasks :: nat
  plan_results :: "string \<rightharpoonup> 'r option"
  task_reports :: "(string \<times> string \<times> TaskStatus \<times> string option) list"
  final_tasks :: "('p, 'r) ExecutionTask list"
  wave_record :: "(string list \<times> ('p, 'r) ExecutionTask list) list"

definition execute_plan ::
  "('p, 'r) tool_executor \<Rightarrow> ('p, 'r) ExecutionTask list \<Rightarrow> ('p, 'r) plan_result" where
  "execute_plan tool_executor ts =
     (let s = wave_loop tool_executor
                \<lparr>tasks = ts, completed_tasks = {}, results = Map.empty, waves = []\<rparr>
      in \<lparr>success = (card (completed_tasks s) = length ts),
          completed_count = card (completed_tasks s),
          total_tasks = length ts,
          plan_results = results s,
          task_reports = map (\<lambda>t. (task_id t, operation t, status t, task_error t)) (tasks s),
          final_tasks = tasks s,
          wave_record = waves s\<rparr>)"

text \<open>
  A task lies downstream of a failure when one of its dependencies is the id of a failed
  task, or of a task that lies downstream of a failure.
\<close>

inductive downstream_of_failure ::
  "('p, 'r) ExecutionTask list \<Rightarrow> ('p, 'r) ExecutionTask \<Rightarrow> bool" for ts where
  direct: "u \<in> set ts \<Longrightarrow> status u = FAILED \<Longrightarrow> task_id u \<in> set (dependencies t)
             \<Longrightarrow> downstream_of_failure ts t"
| transitive: "u \<in> set ts \<Longrightarrow> downstream_of_failure ts u \<Longrightarrow> task_id u \<in> set (dependencies t)
             \<Longrightarrow> downstream_of_failure ts t"

code_pred downstream_of_failure .

text \<open>A fresh task, as \<open>generate_execution_plan\<close> builds it.\<close>

definition new_task :: "string \<Rightarrow> string \<Rightarrow> 'p \<Rightarrow> string list \<Rightarrow> ('p, 'r) ExecutionTask" where
  "new_task tid op ps deps =
     \<lparr>task_id = tid, operation = op, parameters = ps, dependencies = deps,
      status = PENDING, result = None, task_error = None\<rparr>"

text \<open>
  The scenario of the specification: C depends on A and B, and the executor knows the
  operations of B and C while the operation of A raises.
\<close>

definition abc_plan :: "(unit, string) ExecutionTask list" where
  "abc_plan = [new_task ''A'' ''search_emails'' () [], new_task ''B'' ''search_calendar'' () [],
               new_task ''C'' ''extract_information'' () [''A'', ''B'']]"

definition all_succeed :: "(unit, string) tool_executor" where
  "all_succeed = [''search_emails'' \<mapsto> (\<lambda>p. Inr ''emails''),
                  ''search_calendar'' \<mapsto> (\<lambda>p. Inr ''events''),
                  ''extract_information'' \<mapsto> (\<lambda>p. Inr ''facts'')]"

definition a_fails :: "(unit, string) tool_executor" where
  "a_fails = [''search_emails'' \<mapsto> (\<lambda>p. Inl (Error ''quota exceeded'')),
              ''search_calendar'' \<mapsto> (\<lambda>p. Inr ''events''),
              ''extract_information'' \<mapsto> (\<lambda>p. Inr ''facts'')]"

text \<open>
  Auxiliary predicates for the proofs. \<open>wave_ok\<close>: in the task list \<open>snapshot\<close>, every
  dependency of every task with an id among \<open>ids\<close> is the id of a completed task.
  \<open>plan_invariant\<close>: what holds of the loop variables before each wave of a plan \<open>ts\<close>.
\<close>

definition wave_ok :: "string list \<Rightarrow> ('p, 'r) ExecutionTask list \<Rightarrow> bool" where
  "wave_ok wave_ids snapshot =
     (\<forall>t \<in> set snapshot. task_id t \<in> set wave_ids \<longrightarrow>
        (\<forall>d \<in> set (dependencies t). \<exists>u \<in> set snapshot. task_id u = d \<and> status u = COMPLETED))"

definition plan_invariant :: "('p, 'r) ExecutionTask list \<Rightarrow> ('p, 'r) plan_state \<Rightarrow> bool" where
  "plan_invariant ts s =
     (map task_id (tasks s) = map task_id ts
    \<and> map dependencies (tasks s) = map dependencies ts
    \<and> (\<forall>t \<in> set (tasks s). status t = PENDING \<or> status t = COMPLETED \<or> status t = FAILED)
    \<and> completed_tasks s = task_id ` {t \<in> set (tasks s). status t = COMPLETED}
    \<and> (\<forall>t \<in> set (tasks s). status t \<noteq> PENDING \<longrightarrow> set (dependencies t) \<subseteq> completed_tasks s)
    \<and> (\<forall>w \<in> set (waves s). wave_ok (fst w) (snd w))
    \<and> (\<forall>w \<in> set (waves s). \<forall>t \<in> set (tasks s). task_id t \<in> set (fst w) \<longrightarrow> status t \<noteq> PENDING)
    \<and> (waves s = [] \<longrightarrow> completed_tasks s = {} \<and> (\<forall>t \<in> set (tasks s). status t = PENDING))
    \<and> (waves s \<noteq> [] \<longrightarrow>
          fst (hd (waves s)) = map task_id (filter (\<lambda>t. dependencies t = []) ts)))"


section \<open>Properties of text chunking\<close>



lemma py_find_lower:
  assumes "py_find xs c i j \<noteq> - 1" "i \<le> int (length xs)"
  shows "i \<le> py_find xs c i j" "0 \<le> py_find xs c i j"
  using assms by (auto simp: py_find_def norm_index_def Let_def split: if_splits)


lemma window_end_lower: "start + chunk_size - 99 \<le> window_end text chunk_size start"
proof (cases "start + chunk_size < int (length text)
    \<and> py_find text CHR ''.'' (start + chunk_size - 100) (start + chunk_size + 100) \<noteq> - 1")
  case True
  then have "start + chunk_size - 100
      \<le> py_find text CHR ''.'' (start + chunk_size - 100) (start + chunk_size + 100)"
    by (intro py_find_lower) auto
  with True show ?thesis by (simp add: window_end_def Let_def)
next
  case False
  then show ?thesis by (auto simp: window_end_def Let_def)
qed


lemma chunk_loop_step:
  assumes "start < int (length text)"
  shows "chunk_loop text chunk_size overlap start chunks
       = chunk_loop text chunk_size overlap (window_end text chunk_size start - overlap)
           (if py_strip (py_slice text start (window_end text chunk_size start)) \<noteq> []
            then chunks @ [py_strip (py_slice text start (window_end text chunk_size start))]
            else chunks)"
  using assms by (subst chunk_loop.simps) (simp only: Let_def if_True)

lemma chunk_loop_exit:
  assumes "\<not> start < int (length text)"
  shows "chunk_loop text chunk_size overlap start chunks = Some chunks"
  using assms by (subst chunk_loop.simps) (simp only: if_False)

lemma chunk_loop_terminates:
  assumes "overlap \<le> chunk_size - 100"
  shows "\<exists>r. chunk_loop text chunk_size overlap start chunks = Some r
           \<and> length r \<le> length chunks + nat (int (length text) - start)"
proof (induction "nat (int (length text) - start)" arbitrary: start chunks rule: less_induct)
  case less
  show ?case
  proof (cases "start < int (length text)")
    case False
    then show ?thesis by (simp add: chunk_loop_exit)
  next
    case True
    define e where "e = window_end text chunk_size start"
    define chunk where "chunk = py_strip (py_slice text start e)"
    define chunks' where "chunks' = (if chunk \<noteq> [] then chunks @ [chunk] else chunks)"
    have step: "start < e - overlap"
      using window_end_lower[of start chunk_size "text"] assms by (simp add: e_def)
    then have "nat (int (length text) - (e - overlap)) < nat (int (length text) - start)"
      using True by linarith
    from less[OF this, of chunks'] obtain r where
      r: "chunk_loop text chunk_size overlap (e - overlap) chunks' = Some r"
         "length r \<le> length chunks' + nat (int (length text) - (e - overlap))"
      by blast
    have "chunk_loop text chunk_size overlap start chunks
            = chunk_loop text chunk_size overlap (e - overlap) chunks'"
      unfolding e_def chunk_def chunks'_def using True by (rule chunk_loop_step)
    then have "chunk_loop text chunk_size overlap start chunks = Some r"
      using r(1) by simp
    moreover have "length chunks' \<le> length chunks + 1" by (simp add: chunks'_def)
    moreover have "nat (int (length text) - (e - overlap)) + 1 \<le> nat (int (length text) - start)"
      using step True by linarith
    ultimately show ?thesis using r(2) by (intro exI[of _ r] conjI) linarith+
  qed
qed

text \<open>
  C9. Whenever \<open>overlap \<le> chunk_size - 100\<close>, every iteration of the loop of \<open>chunk_text\<close>
  moves the window start strictly forward, so \<open>chunk_text\<close> returns on every text, and
  it returns at most as many chunks as the text has characters.
\<close>

theorem chunk_text_terminates:
  assumes "overlap \<le> chunk_size - 100"
  shows "(\<forall>start. start < window_end text chunk_size start - overlap)
       \<and> (\<exists>chunks. chunk_text text chunk_size overlap = Some chunks
                   \<and> length chunks \<le> length text)"
proof
  show "\<forall>start. start < window_end text chunk_size start - overlap"
  proof
    fix start
    show "start < window_end text chunk_size start - overlap"
      using window_end_lower[of start chunk_size "text"] assms by linarith
  qed
next
  show "\<exists>chunks. chunk_text text chunk_size overlap = Some chunks \<and> length chunks \<le> length text"
  proof (cases "text = [] \<or> int (length text) \<le> chunk_size")
    case True
    then show ?thesis
      by (cases "text") (simp_all add: chunk_text_def)
  next
    case False
    from chunk_loop_terminates[OF assms, of "text" 0 "[]"] obtain r where
      "chunk_loop text chunk_size overlap 0 [] = Some r" "length r \<le> length text"
      by auto
    with False show ?thesis by (simp add: chunk_text_def)
  qed
qed

text \<open>The two configurations the system uses: the defaults 1000/200 and the indexer's 1200/150.\<close>

theorem chunk_text_terminates_witness:
  "(200::int) \<le> 1000 - 100 \<and> (150::int) \<le> 1200 - 100
   \<and> (\<exists>chunks. chunk_text (replicate 1001 CHR ''a'') 1000 200 = Some chunks \<and> length chunks \<le> 1001)
   \<and> (\<exists>chunks. chunk_text (replicate 1501 CHR ''a'') 1200 150 = Some chunks \<and> length chunks \<le> 1501)"
  using chunk_text_terminates[of 200 1000 "replicate 1001 CHR ''a''"]
        chunk_text_terminates[of 150 1200 "replicate 1501 CHR ''a''"]
  by simp



lemma py_strip_no_space:
  assumes "\<forall>c\<in>set s. \<not> py_isspace c"
  shows "py_strip s = s"
proof -
  have "dropWhile py_isspace s = s" using assms by (cases s) auto
  moreover have "dropWhile py_isspace (rev s) = rev s" using assms by (cases "rev s") (auto dest!: arg_cong[where f=set])
  ultimately show ?thesis by (simp add: py_strip_def)
qed

lemma py_slice_nonneg:
  assumes "0 \<le> i" "0 \<le> j"
  shows "py_slice xs i j = take (nat j - nat i) (drop (nat i) xs)"
proof -
  let ?n = "int (length xs)"
  have "py_slice xs i j = take (nat (min j ?n - min i ?n)) (drop (nat (min i ?n)) xs)"
    using assms by (simp add: py_slice_def norm_index_def Let_def)
  also have "\<dots> = take (nat j - nat i) (drop (nat i) xs)"
  proof (cases "i \<le> ?n")
    case True
    then have "min i ?n = i" by simp
    moreover have "take (nat (min j ?n - i)) (drop (nat i) xs) = take (nat j - nat i) (drop (nat i) xs)"
    proof (cases "j \<le> ?n")
      case True
      then show ?thesis using assms by (simp add: nat_diff_distrib')
    next
      case False
      then have "length (drop (nat i) xs) \<le> nat (min j ?n - i)" "length (drop (nat i) xs) \<le> nat j - nat i"
        using assms True by auto
      then show ?thesis by simp
    qed
    ultimately show ?thesis by simp
  next
    case False
    then have "drop (nat (min i ?n)) xs = []" "drop (nat i) xs = []" by auto
    then show ?thesis by simp
  qed
  finally show ?thesis .
qed






lemma take_extend:
  fixes xs :: "'a list"
  assumes "a \<le> b"
  shows "take a xs @ drop (b - (b - a)) (take b xs) = take b xs"
proof -
  have "b - (b - a) = a" using assms by simp
  moreover have "take a xs = take a (take b xs)" using assms by (simp add: min_def)
  ultimately show ?thesis by (metis append_take_drop_id)
qed







section \<open>Properties of the conversation memory\<close>

lemma add_message_appends:
  "add_message thr llm now r c m
     = m\<lparr>messages := messages m @ [\<lparr>role = r, content = c, timestamp = now\<rparr>],
         message_count := message_count m + 1\<rparr>"
  by (simp add: add_message_def Let_def)

lemma add_messages_appends:
  "add_messages thr llm now turns m
     = m\<lparr>messages := messages m @ map (\<lambda>(r, c). \<lparr>role = r, content = c, timestamp = now\<rparr>) turns,
         message_count := message_count m + int (length turns)\<rparr>"
  unfolding add_messages_def
proof (induction turns arbitrary: m)
  case Nil
  show ?case by simp
next
  case (Cons t turns)
  obtain r c where t: "t = (r, c)" by (cases t)
  have "fold (\<lambda>(r, c). add_message thr llm now r c) (t # turns) m
      = fold (\<lambda>(r, c). add_message thr llm now r c) turns (add_message thr llm now r c m)"
    by (simp add: t)
  also have "\<dots> = (add_message thr llm now r c m)
      \<lparr>messages := messages (add_message thr llm now r c m)
           @ map (\<lambda>(r, c). \<lparr>role = r, content = c, timestamp = now\<rparr>) turns,
       message_count := message_count (add_message thr llm now r c m) + int (length turns)\<rparr>"
    by (rule Cons)
  also have "\<dots> = m\<lparr>messages := messages m
           @ map (\<lambda>(r, c). \<lparr>role = r, content = c, timestamp = now\<rparr>) (t # turns),
       message_count := message_count m + int (length (t # turns))\<rparr>"
    by (simp add: add_message_appends t)
  finally show ?case .
qed

text \<open>
  What awaiting the coroutine would do at the threshold: with twenty live messages, no
  earlier summary and a reply from the service, the ten most recent messages stay and the
  reply becomes the summary.
\<close>

lemma summarize_and_compress_awaited:
  assumes "length (messages m) = 20" "summary m = None" "\<forall>req. \<exists>reply. llm req = Inr reply"
  shows "length (messages (await (Coroutine (summarize_and_compress 20 llm)) m)) = 10
       \<and> summary (await (Coroutine (summarize_and_compress 20 llm)) m) \<noteq> None"
proof -
  let ?req = "[(''system'', ''You are a helpful assistant that summarizes conversations concisely.''),
               (''user'', summary_prompt (py_join ''\<newline>\<newline>''
                  (map (\<lambda>msg. py_upper (role msg) @ '': '' @ content msg)
                     (py_slice (messages m) 0 (int (length (messages m)) - 10)))))]"
  from assms(3) obtain reply where "llm ?req = Inr reply" by blast
  then show ?thesis
    using assms(1,2)
    by (simp add: summarize_and_compress_def Let_def py_slice_def norm_index_def)
qed

text \<open>
  C1. The claim asks that the \<open>add_message\<close> call reaching the threshold of 20 leave ten
  live messages and a summary. Evaluated on the code: after twenty \<open>add_message\<close> calls on
  a fresh memory, whatever the service would reply, all twenty messages are live and the
  summary is still absent.
\<close>

theorem add_message_twentieth_not_compacted:
  "length (messages (add_messages 20 llm now (replicate 20 (''user'', ''hello'')) ConversationMemory_init)) = 20
   \<and> summary (add_messages 20 llm now (replicate 20 (''user'', ''hello'')) ConversationMemory_init) = None"
  by (simp add: add_messages_appends ConversationMemory_init_def)


section \<open>Properties of the stores\<close>

text \<open>
  C6. On an empty collection \<open>semantic_search\<close> returns the canonical empty result,
  whatever the embedding service does, and sends nothing to the index; no exception leaves
  \<open>semantic_search\<close>, whose handler maps every one of them to that result. On a collection
  of \<open>count > 0\<close> documents every query sent to the index asks for
  \<open>max 1 (min n count)\<close> results, a number between 1 and \<open>count\<close>.
\<close>

theorem semantic_search_clamps:
  "(collection vs = Some [] \<longrightarrow>
      fst (semantic_search ev query n w vs) = empty_result
      \<and> snd (snd (semantic_search ev query n w vs)) = [])
 \<and> (\<forall>e vs' sent. semantic_search_body ev query n w vs = (Inl e, vs', sent)
      \<longrightarrow> fst (semantic_search ev query n w vs) = empty_result)
 \<and> (\<forall>docs. collection vs = Some docs \<and> docs \<noteq> [] \<longrightarrow>
      (\<forall>p \<in> set (snd (snd (semantic_search ev query n w vs))).
          n_results p = max 1 (min n (int (length docs)))
          \<and> 1 \<le> n_results p \<and> n_results p \<le> int (length docs))
      \<and> (\<forall>q. generate_embedding ev query = Inr q \<longrightarrow>
            semantic_search ev query n w vs
              = (chroma_query ev docs q (max 1 (min n (int (length docs)))) w, vs,
                 [\<lparr>n_results = max 1 (min n (int (length docs))), where_clause = w\<rparr>])))"
proof (intro conjI allI impI)
  assume "collection vs = Some []"
  then show "fst (semantic_search ev query n w vs) = empty_result"
    by (simp add: semantic_search_def semantic_search_body_def ensure_collection_exists_def)
next
  assume "collection vs = Some []"
  then show "snd (snd (semantic_search ev query n w vs)) = []"
    by (simp add: semantic_search_def semantic_search_body_def ensure_collection_exists_def)
next
  fix e vs' sent
  assume "semantic_search_body ev query n w vs = (Inl e, vs', sent)"
  then show "fst (semantic_search ev query n w vs) = empty_result"
    by (simp add: semantic_search_def)
next
  fix docs
  assume a: "collection vs = Some docs \<and> docs \<noteq> []"
  then have len: "1 \<le> int (length docs)" by (cases docs) simp_all
  show "\<forall>p \<in> set (snd (snd (semantic_search ev query n w vs))).
          n_results p = max 1 (min n (int (length docs)))
          \<and> 1 \<le> n_results p \<and> n_results p \<le> int (length docs)"
  proof (cases "generate_embedding ev query")
    case (Inl e)
    with a show ?thesis
      by (simp add: semantic_search_def semantic_search_body_def ensure_collection_exists_def)
  next
    case (Inr q)
    with a len show ?thesis
      by (simp add: semantic_search_def semantic_search_body_def ensure_collection_exists_def
                    Let_def)
  qed
next
  fix docs q
  assume a: "collection vs = Some docs \<and> docs \<noteq> []" and q: "generate_embedding ev query = Inr q"
  then show "semantic_search ev query n w vs
              = (chroma_query ev docs q (max 1 (min n (int (length docs)))) w, vs,
                 [\<lparr>n_results = max 1 (min n (int (length docs))), where_clause = w\<rparr>])"
    by (simp add: semantic_search_def semantic_search_body_def ensure_collection_exists_def
                  Let_def)
qed

theorem semantic_search_clamps_witness:
  "fst (semantic_search
          \<lparr>generate_embedding = (\<lambda>s. Inr (0::nat)), distance = (\<lambda>a b. 0),
           uuid4_hex = (\<lambda>k. ''0123456789abcdef''), now_iso = ''2025-01-01T00:00:00''\<rparr>
          ''project deadline'' 10 None \<lparr>collection = Some [], uuid_drawn = 0\<rparr>) = empty_result
 \<and> fst (semantic_search
          \<lparr>generate_embedding = (\<lambda>s. Inl (Error ''embedding service down'')), distance = (\<lambda>a b. 0),
           uuid4_hex = (\<lambda>k. ''0123456789abcdef''), now_iso = ''2025-01-01T00:00:00''\<rparr>
          ''project deadline'' 10 None
          \<lparr>collection = Some [\<lparr>doc_id = ''email_m1_01234567'', document = ''Subject: hi'',
                                embedding = (0::nat), doc_metadata = Map.empty\<rparr>],
           uuid_drawn = 1\<rparr>) = empty_result
 \<and> snd (snd (semantic_search
          \<lparr>generate_embedding = (\<lambda>s. Inr (0::nat)), distance = (\<lambda>a b. 0),
           uuid4_hex = (\<lambda>k. ''0123456789abcdef''), now_iso = ''2025-01-01T00:00:00''\<rparr>
          ''project deadline'' 10 None
          \<lparr>collection = Some [\<lparr>doc_id = ''email_m1_01234567'', document = ''Subject: hi'',
                                embedding = (0::nat), doc_metadata = Map.empty\<rparr>],
           uuid_drawn = 1\<rparr>))
     = [\<lparr>n_results = 1, where_clause = None\<rparr>]"
  using semantic_search_clamps[of "\<lparr>collection = Some [], uuid_drawn = 0\<rparr>"
          "\<lparr>generate_embedding = (\<lambda>s. Inr (0::nat)), distance = (\<lambda>a b. 0),
           uuid4_hex = (\<lambda>k. ''0123456789abcdef''), now_iso = ''2025-01-01T00:00:00''\<rparr>"
          "''project deadline''" 10 None]
        semantic_search_clamps[of
          "\<lparr>collection = Some [\<lparr>doc_id = ''email_m1_01234567'', document = ''Subject: hi'',
                                embedding = (0::nat), doc_metadata = Map.empty\<rparr>],
           uuid_drawn = 1\<rparr>"
          "\<lparr>generate_embedding = (\<lambda>s. Inl (Error ''embedding service down'')), distance = (\<lambda>a b. 0),
           uuid4_hex = (\<lambda>k. ''0123456789abcdef''), now_iso = ''2025-01-01T00:00:00''\<rparr>"
          "''project deadline''" 10 None]
        semantic_search_clamps[of
          "\<lparr>collection = Some [\<lparr>doc_id = ''email_m1_01234567'', document = ''Subject: hi'',
                                embedding = (0::nat), doc_metadata = Map.empty\<rparr>],
           uuid_drawn = 1\<rparr>"
          "\<lparr>generate_embedding = (\<lambda>s. Inr (0::nat)), distance = (\<lambda>a b. 0),
           uuid4_hex = (\<lambda>k. ''0123456789abcdef''), now_iso = ''2025-01-01T00:00:00''\<rparr>"
          "''project deadline''" 10 None]
  by (simp add: semantic_search_body_def ensure_collection_exists_def)

text \<open>
  C8. \<open>clear_vector_db\<close> changes nothing of the full-body storage, whether it succeeds or
  raises: every id is retrieved as before. Clearing the full-body storage leaves the
  vector store, and so every document of its collection, as it was.
\<close>

theorem clearing_one_store_keeps_the_other:
  "get_email (email_storage (snd (clear_vector_db st))) email_id = get_email (email_storage st) email_id
 \<and> email_storage (snd (clear_vector_db st)) = email_storage st
 \<and> vector_store (clear_email_storage writable st) = vector_store st
 \<and> collection (vector_store (clear_email_storage writable st)) = collection (vector_store st)"
  by (simp add: clear_vector_db_def clear_email_storage_def split: prod.splits)


section \<open>The dedupe check of the indexer and chunked emails\<close>

lemma py_str_nat_digits: "py_str_nat 0 = ''0''" "py_str_nat 1 = ''1''" "py_str_nat (Suc 0) = ''1''"
  by code_simp+

lemma chunk_text_long_email:
  "chunk_text (replicate 1501 CHR ''a'') 1200 150
     = Some [replicate 1200 CHR ''a'', replicate 451 CHR ''a'']"
proof -
  let ?T = "replicate 1501 CHR ''a''"
  have nosp: "\<not> py_isspace CHR ''a''" by (simp add: py_isspace_def)
  have strip: "py_strip (replicate n CHR ''a'') = replicate n CHR ''a''" for n
    using nosp by (intro py_strip_no_space) simp
  have find: "py_find ?T CHR ''.'' 1100 1300 = - 1"
    by (simp add: py_find_def py_slice_nonneg Let_def)
  have e0: "window_end ?T 1200 0 = 1200"
    by (simp add: window_end_def Let_def find)
  have e1: "window_end ?T 1200 1050 = 2250"
    by (simp add: window_end_def Let_def)
  have s0: "py_slice ?T 0 1200 = replicate 1200 CHR ''a''"
    by (simp add: py_slice_nonneg)
  have s1: "py_slice ?T 1050 2250 = replicate 451 CHR ''a''"
    by (simp add: py_slice_nonneg)
  have "chunk_loop ?T 1200 150 0 [] = chunk_loop ?T 1200 150 1050 [replicate 1200 CHR ''a'']"
    by (subst chunk_loop_step) (simp_all add: e0 s0 strip)
  also have "\<dots> = chunk_loop ?T 1200 150 2100 [replicate 1200 CHR ''a'', replicate 451 CHR ''a'']"
    by (subst chunk_loop_step) (simp_all add: e1 s1 strip)
  also have "\<dots> = Some [replicate 1200 CHR ''a'', replicate 451 CHR ''a'']"
    by (rule chunk_loop_exit) simp
  finally show ?thesis by (simp add: chunk_text_def)
qed


lemma merge_additional_other:
  "k \<notin> fst ` set additional \<Longrightarrow> merge_additional additional md k = md k"
  unfolding merge_additional_def
  by (induction additional arbitrary: md) (auto split: prod.splits)

lemma chunk_metadata_keys:
  "''email_id'' \<notin> fst ` set (chunk_metadata p s i n c)"
  "''content_type'' \<notin> fst ` set (chunk_metadata p s i n c)"
  "''email_id'' \<notin> fst ` set (enhanced_metadata p s)"
  "''content_type'' \<notin> fst ` set (enhanced_metadata p s)"
  by (simp_all add: chunk_metadata_def enhanced_metadata_def Let_def)

lemma email_metadata_fixed:
  assumes "''email_id'' \<notin> fst ` set additional" "''content_type'' \<notin> fst ` set additional"
  shows "email_metadata ev eid subj sender rcpt date labels atts tid additional ''email_id''
           = Some (MStr eid)"
    and "email_metadata ev eid subj sender rcpt date labels atts tid additional ''content_type''
           = Some (MStr ''email'')"
  using assms by (simp_all add: email_metadata_def Let_def merge_additional_other)

lemma indexed_email_ids_ensure:
  "indexed_email_ids (ensure_collection_exists vs) = indexed_email_ids vs"
  by (cases "collection vs") (simp_all add: indexed_email_ids_def ensure_collection_exists_def)

lemma add_email_ok:
  assumes emb: "generate_embedding ev (''Subject: '' @ subj @ ''\<newline>\<newline>From: '' @ sender
                          @ ''\<newline>\<newline>Body: '' @ body) = Inr e"
      and keys: "''email_id'' \<notin> fst ` set additional" "''content_type'' \<notin> fst ` set additional"
  shows "\<exists>new_id vs'. add_email ev eid subj body sender rcpt date labels atts tid additional vs
                         = (Inr new_id, vs')
           \<and> indexed_email_ids vs' = indexed_email_ids vs @ [Some (MStr eid)]"
proof -
  let ?vs1 = "ensure_collection_exists vs"
  have "indexed_email_ids (collection_add d (v\<lparr>uuid_drawn := k\<rparr>))
          = indexed_email_ids v @ [doc_metadata d ''email_id'']" for d k and v :: "'a VectorStore"
    by (cases "collection v") (simp_all add: indexed_email_ids_def collection_add_def)
  then show ?thesis
    using emb email_metadata_fixed(1)[OF keys]
    by (simp add: add_email_def Let_def indexed_email_ids_ensure)
qed

lemma add_chunks_ok:
  assumes emb: "\<forall>s. \<exists>e. generate_embedding ev s = Inr e"
  shows "\<exists>vs'. add_chunks ev p s n i chunks vs = (None, vs')
           \<and> indexed_email_ids vs'
               = indexed_email_ids vs
                 @ map (\<lambda>k. Some (MStr (pe_id p @ ''_chunk_'' @ py_str_nat k))) [i..<i + length chunks]"
proof (induction chunks arbitrary: i vs)
  case Nil
  show ?case by simp
next
  case (Cons chunk rest)
  from emb obtain e where
    "generate_embedding ev (''Subject: '' @ pe_subject p @ ''\<newline>\<newline>From: '' @ pe_from p
                          @ ''\<newline>\<newline>Body: '' @ chunk) = Inr e" by blast
  from add_email_ok[OF this chunk_metadata_keys(1,2)] obtain new_id vs1 where
    a: "add_email ev (pe_id p @ ''_chunk_'' @ py_str_nat i) (pe_subject p) chunk (pe_from p)
             (pe_to p) (pe_date p) (pe_labels p) (pe_attachments p) (Some (pe_thread_id p))
             (chunk_metadata p s i n chunk) vs = (Inr new_id, vs1)"
       "indexed_email_ids vs1
          = indexed_email_ids vs @ [Some (MStr (pe_id p @ ''_chunk_'' @ py_str_nat i))]"
    by blast
  from Cons[of "i + 1" vs1] obtain vs' where
    b: "add_chunks ev p s n (i + 1) rest vs1 = (None, vs')"
       "indexed_email_ids vs'
          = indexed_email_ids vs1
            @ map (\<lambda>k. Some (MStr (pe_id p @ ''_chunk_'' @ py_str_nat k))) [i + 1..<i + 1 + length rest]"
    by blast
  have "[i..<i + length (chunk # rest)] = i # [i + 1..<i + 1 + length rest]"
    by (simp add: upt_rec)
  then show ?case using a b by simp
qed

lemma already_indexed_iff:
  "already_indexed vs eid \<longleftrightarrow> Some (MStr eid) \<in> set (indexed_email_ids vs)"
proof (cases "collection vs")
  case None
  then show ?thesis by (simp add: already_indexed_def indexed_email_ids_def)
next
  case (Some docs)
  have "take 1 xs \<noteq> [] \<longleftrightarrow> xs \<noteq> []" for xs :: "'b list" by (cases xs) simp_all
  then have "already_indexed vs eid \<longleftrightarrow> (\<exists>d \<in> set docs. doc_metadata d ''email_id'' = Some (MStr eid))"
    using Some by (simp add: already_indexed_def chroma_get_def filter_empty_conv)
  also have "\<dots> \<longleftrightarrow> Some (MStr eid) \<in> set (indexed_email_ids vs)"
    using Some by (force simp: indexed_email_ids_def image_iff)
  finally show ?thesis .
qed

text \<open>
  In general: when the embedding service does not fail, indexing an email whose body is
  longer than 1500 characters stores its chunks under the ids \<open><id>_chunk_<i>\<close>, so the
  dedupe check for \<open><id>\<close> answers after the indexing what it answered before.
\<close>

lemma chunked_email_not_found:
  assumes emb: "\<forall>s. \<exists>e. generate_embedding ev s = Inr e"
      and long: "1500 < length (pe_body_text p)"
      and ix: "index_email_with_metadata ev p s vs = Some (outcome, vs')"
  shows "outcome = None" and "already_indexed vs' (pe_id p) = already_indexed vs (pe_id p)"
proof -
  from ix long obtain chunks where
    c: "add_chunks ev p s (length chunks) 0 chunks vs = (outcome, vs')"
    by (auto simp: index_email_with_metadata_def split: option.splits)
  from add_chunks_ok[OF emb, of p s "length chunks" 0 chunks vs] c
  have o: "outcome = None"
    and ids: "indexed_email_ids vs'
               = indexed_email_ids vs
                 @ map (\<lambda>k. Some (MStr (pe_id p @ ''_chunk_'' @ py_str_nat k))) [0..<0 + length chunks]"
    by auto
  show "outcome = None" by (rule o)
  have "Some (MStr (pe_id p)) \<notin> set (map (\<lambda>k. Some (MStr (pe_id p @ ''_chunk_'' @ py_str_nat k)))
                                       [0..<0 + length chunks])"
    by auto
  then show "already_indexed vs' (pe_id p) = already_indexed vs (pe_id p)"
    unfolding already_indexed_iff ids by simp
qed


lemma index_long_email:
  assumes fresh: "\<not> already_indexed (ix_vector_store st) ''m1''"
  shows "\<exists>st'. index_message one_long_email plain_env ''m1'' st = Some st'
           \<and> pass_counts st' = (indexed_count st + 1, skipped_count st, error_count st)
           \<and> indexed_email_ids (ix_vector_store st')
               = indexed_email_ids (ix_vector_store st)
                 @ [Some (MStr ''m1_chunk_0''), Some (MStr ''m1_chunk_1'')]"
proof -
  let ?s = "''Email about: Report''"
  have emb: "\<forall>s. \<exists>e. generate_embedding plain_env s = Inr e" by (simp add: plain_env_def)
  have id: "pe_id long_email = ''m1''" by (simp add: long_email_def)
  have long: "1500 < length (pe_body_text long_email)" by (simp add: long_email_def)
  have chunks: "chunk_text (pe_body_text long_email) 1200 150
                  = Some [replicate 1200 CHR ''a'', replicate 451 CHR ''a'']"
    by (simp add: long_email_def chunk_text_long_email)
  from add_chunks_ok[OF emb, of long_email ?s 2 0
         "[replicate 1200 CHR ''a'', replicate 451 CHR ''a'']" "ix_vector_store st"]
  obtain vs' where
    a: "add_chunks plain_env long_email ?s 2 0
          [replicate 1200 CHR ''a'', replicate 451 CHR ''a''] (ix_vector_store st) = (None, vs')"
    and ids: "indexed_email_ids vs'
               = indexed_email_ids (ix_vector_store st)
                 @ map (\<lambda>k. Some (MStr (pe_id long_email @ ''_chunk_'' @ py_str_nat k)))
                     [0..<0 + length [replicate 1200 CHR ''a'', replicate 451 CHR ''a'']]"
    by blast
  have "[0..<0 + length [replicate 1200 CHR ''a'', replicate 451 CHR ''a'']] = [0, 1]"
    by (simp add: upt_rec)
  with ids have ids': "indexed_email_ids vs'
               = indexed_email_ids (ix_vector_store st)
                 @ [Some (MStr ''m1_chunk_0''), Some (MStr ''m1_chunk_1'')]"
    by (simp add: id py_str_nat_digits del: py_str_nat.simps)
  have ix: "index_email_with_metadata plain_env long_email ?s (ix_vector_store st) = Some (None, vs')"
  proof -
    have len: "length [replicate 1200 CHR ''a'', replicate 451 CHR ''a''] = 2" by simp
    show ?thesis
      unfolding index_email_with_metadata_def
      by (simp only: long if_True chunks option.case len a)
  qed
  have "index_message one_long_email plain_env ''m1'' st
      = Some (st\<lparr>ix_vector_store := vs',
                  ix_email_storage :=
                    store_email True long_email ?s
                      (categorize_email (pe_subject long_email) (pe_body_text long_email)
                         (pe_labels long_email))
                      (now_iso plain_env) (ix_email_storage st),
                  indexed_count := indexed_count st + 1\<rparr>)"
    using fresh ix by (simp add: index_message_def one_long_email_def id Let_def)
  then show ?thesis using ids' by (simp add: pass_counts_def)
qed

text \<open>
  Claim C2 (a later pass skips every email an earlier pass indexed, chunked ones included)
  fails for a chunked email. The mailbox holds one message \<open>m1\<close> with a body of 1501
  letters and no service fails. The first pass of \<open>run_indexing\<close> reports one email indexed
  and stores two chunks, whose \<open>email_id\<close> metadata are \<open>m1_chunk_0\<close> and \<open>m1_chunk_1\<close>. The
  second pass, run on the stores the first one left, asks for a document whose \<open>email_id\<close>
  is \<open>m1\<close>, finds none, and reports again one email indexed and none skipped; the store
  then holds the two chunks twice.
\<close>

theorem long_email_indexed_again:
  "map_option pass_counts
     (run_indexing one_long_email plain_env empty_vector_store empty_email_storage)
     = Some (1, 0, 0)
 \<and> map_option (indexed_email_ids \<circ> ix_vector_store)
     (run_indexing one_long_email plain_env empty_vector_store empty_email_storage)
     = Some [Some (MStr ''m1_chunk_0''), Some (MStr ''m1_chunk_1'')]
 \<and> map_option pass_counts
     (second_pass one_long_email plain_env
        (run_indexing one_long_email plain_env empty_vector_store empty_email_storage))
     = Some (1, 0, 0)
 \<and> map_option (indexed_email_ids \<circ> ix_vector_store)
     (second_pass one_long_email plain_env
        (run_indexing one_long_email plain_env empty_vector_store empty_email_storage))
     = Some [Some (MStr ''m1_chunk_0''), Some (MStr ''m1_chunk_1''),
             Some (MStr ''m1_chunk_0''), Some (MStr ''m1_chunk_1'')]"
proof -
  let ?st0 = "\<lparr>ix_vector_store = empty_vector_store, ix_email_storage = empty_email_storage,
               indexed_count = 0, skipped_count = 0, error_count = 0\<rparr>"
  have e: "indexed_email_ids empty_vector_store = []"
    by (simp add: indexed_email_ids_def empty_vector_store_def)
  then have "\<not> already_indexed (ix_vector_store ?st0) ''m1''"
    by (simp add: already_indexed_iff)
  from index_long_email[OF this] obtain st1 where
    st1: "index_message one_long_email plain_env ''m1'' ?st0 = Some st1"
         "pass_counts st1 = (1, 0, 0)"
         "indexed_email_ids (ix_vector_store st1)
            = [Some (MStr ''m1_chunk_0''), Some (MStr ''m1_chunk_1'')]"
    using e by auto
  have lm: "list_messages one_long_email = [''m1'']" by (simp add: one_long_email_def)
  have first: "run_indexing one_long_email plain_env empty_vector_store empty_email_storage = Some st1"
    using st1(1) by (simp add: run_indexing_def lm)
  let ?st0' = "\<lparr>ix_vector_store = ix_vector_store st1, ix_email_storage = ix_email_storage st1,
               indexed_count = 0, skipped_count = 0, error_count = 0\<rparr>"
  have "\<not> already_indexed (ix_vector_store ?st0') ''m1''"
    by (simp add: already_indexed_iff st1(3))
  from index_long_email[OF this] obtain st2 where
    st2: "index_message one_long_email plain_env ''m1'' ?st0' = Some st2"
         "pass_counts st2 = (1, 0, 0)"
         "indexed_email_ids (ix_vector_store st2)
            = [Some (MStr ''m1_chunk_0''), Some (MStr ''m1_chunk_1''),
               Some (MStr ''m1_chunk_0''), Some (MStr ''m1_chunk_1'')]"
    using st1(3) by auto
  have "second_pass one_long_email plain_env (Some st1)
      = run_indexing one_long_email plain_env (ix_vector_store st1) (ix_email_storage st1)"
    by (simp add: second_pass_def)
  also have "\<dots> = Some st2"
    using st2(1) by (simp add: run_indexing_def lm)
  finally have second: "second_pass one_long_email plain_env (Some st1) = Some st2" .
  show ?thesis
    unfolding first second using st1(2,3) st2(2,3) by simp
qed


section \<open>Properties of the decision engine\<close>

lemma semantic_analysis_llm_raises:
  "chat_completion svc (analysis_request query) = Inl e \<Longrightarrow>
     semantic_analysis svc query
       = JObj [(''requires_email_data'', JBool True), (''intent'', JStr ''search_emails'')]"
  by (simp add: semantic_analysis_def)

text \<open>
  C7. If the chat completion called by the semantic analysis raises, \<open>analyze_query\<close>
  returns a result (it has no exceptional outcome: every exception of its body is caught)
  with \<open>needs_rag\<close> and \<open>needs_search\<close> both \<open>True\<close>.
\<close>

theorem analyze_query_fail_open:
  assumes "chat_completion svc (analysis_request query) = Inl e"
  shows "needs_rag (analyze_query svc query) = JBool True
       \<and> needs_search (analyze_query svc query) = JBool True"
proof (cases "extract_time_constraint svc query")
  case (Inl err)
  then show ?thesis by (simp add: analyze_query_def analyze_query_body_def Let_def)
next
  case (Inr extracted_time)
  then show ?thesis
    by (simp add: analyze_query_def analyze_query_body_def Let_def
                  semantic_analysis_llm_raises[OF assms] calculate_confidence_def
                  build_reasoning_def)
qed

theorem analyze_query_fail_open_witness:
  "chat_completion
      \<lparr>check_email_search_patterns = (\<lambda>q. False), check_time_patterns = (\<lambda>q. False),
       extract_time_constraint = (\<lambda>q. Inr None), extract_sender = (\<lambda>q. None),
       extract_keywords = (\<lambda>q. []), chat_completion = (\<lambda>req. Inl (Error ''timeout'')),
       json_loads = (\<lambda>s. Inr JNull), py_str = (\<lambda>v. '''')\<rparr>
      (analysis_request ''what is the weather'') = Inl (Error ''timeout'')
   \<and> needs_rag (analyze_query
      \<lparr>check_email_search_patterns = (\<lambda>q. False), check_time_patterns = (\<lambda>q. False),
       extract_time_constraint = (\<lambda>q. Inr None), extract_sender = (\<lambda>q. None),
       extract_keywords = (\<lambda>q. []), chat_completion = (\<lambda>req. Inl (Error ''timeout'')),
       json_loads = (\<lambda>s. Inr JNull), py_str = (\<lambda>v. '''')\<rparr>
      ''what is the weather'') = JBool True
   \<and> needs_search (analyze_query
      \<lparr>check_email_search_patterns = (\<lambda>q. False), check_time_patterns = (\<lambda>q. False),
       extract_time_constraint = (\<lambda>q. Inr None), extract_sender = (\<lambda>q. None),
       extract_keywords = (\<lambda>q. []), chat_completion = (\<lambda>req. Inl (Error ''timeout'')),
       json_loads = (\<lambda>s. Inr JNull), py_str = (\<lambda>v. '''')\<rparr>
      ''what is the weather'') = JBool True"
  using analyze_query_fail_open[of
      "\<lparr>check_email_search_patterns = (\<lambda>q. False), check_time_patterns = (\<lambda>q. False),
       extract_time_constraint = (\<lambda>q. Inr None), extract_sender = (\<lambda>q. None),
       extract_keywords = (\<lambda>q. []), chat_completion = (\<lambda>req. Inl (Error ''timeout'')),
       json_loads = (\<lambda>s. Inr JNull), py_str = (\<lambda>v. '''')\<rparr>"
      "''what is the weather''" "Error ''timeout''"]
  by simp


section \<open>Properties of the base agent\<close>




















section \<open>Properties of the execution planner\<close>

lemma execute_single_task_fields:
  "task_id (execute_single_task ex t) = task_id t"
  "dependencies (execute_single_task ex t) = dependencies t"
  "status (execute_single_task ex t) = COMPLETED \<or> status (execute_single_task ex t) = FAILED"
  by (simp_all add: execute_single_task_def Let_def split: option.splits sum.splits error.splits)

lemma execute_single_task_not_pending: "status (execute_single_task ex t) \<noteq> PENDING"
  using execute_single_task_fields(3)[of ex t] by auto

lemma execute_parallel_tasks_ids:
  "map task_id (execute_parallel_tasks ex c ts) = map task_id ts"
  "map dependencies (execute_parallel_tasks ex c ts) = map dependencies ts"
  by (simp_all add: execute_parallel_tasks_def execute_single_task_fields)

lemma execute_parallel_tasks_set:
  "set (execute_parallel_tasks ex c ts)
     = {t \<in> set ts. \<not> is_ready c t} \<union> execute_single_task ex ` {t \<in> set ts. is_ready c t}"
  by (auto simp: execute_parallel_tasks_def)

lemma same_id_same_task:
  assumes "distinct (map task_id ts)" "t \<in> set ts" "u \<in> set ts" "task_id t = task_id u"
  shows "t = u"
  using assms by (meson distinct_map inj_onD)

lemma is_ready_empty:
  "is_ready {} t \<longleftrightarrow> status t = PENDING \<and> dependencies t = []"
  by (cases "dependencies t") (simp_all add: is_ready_def)

lemma is_ready_deps: "is_ready c t \<Longrightarrow> set (dependencies t) \<subseteq> c"
  by (auto simp: is_ready_def list_all_iff)

lemma is_ready_pending: "is_ready c t \<Longrightarrow> status t = PENDING"
  by (simp add: is_ready_def)

lemma finished_ids:
  "set (map task_id (filter (\<lambda>t. status t = COMPLETED) (map (execute_single_task ex) rs)))
     = task_id ` {t \<in> set rs. status (execute_single_task ex t) = COMPLETED}"
proof (induction rs)
  case Nil
  show ?case by simp
next
  case (Cons r rs)
  have "{t \<in> set (r # rs). status (execute_single_task ex t) = COMPLETED}
      = (if status (execute_single_task ex r) = COMPLETED then {r} else {})
        \<union> {t \<in> set rs. status (execute_single_task ex t) = COMPLETED}"
    by auto
  then show ?case using Cons by (simp add: execute_single_task_fields(1))
qed

lemma wave_step_fields:
  "tasks (wave_step ex s) = execute_parallel_tasks ex (completed_tasks s) (tasks s)"
  "completed_tasks (wave_step ex s)
     = completed_tasks s \<union> task_id ` {t \<in> set (tasks s). is_ready (completed_tasks s) t
                                       \<and> status (execute_single_task ex t) = COMPLETED}"
  "waves (wave_step ex s)
     = waves s @ [(map task_id (filter (is_ready (completed_tasks s)) (tasks s)), tasks s)]"
proof -
  show "tasks (wave_step ex s) = execute_parallel_tasks ex (completed_tasks s) (tasks s)"
    by (simp add: wave_step_def Let_def)
  show "waves (wave_step ex s)
     = waves s @ [(map task_id (filter (is_ready (completed_tasks s)) (tasks s)), tasks s)]"
    by (simp add: wave_step_def Let_def)
  have "{t \<in> set (filter (is_ready (completed_tasks s)) (tasks s)).
            status (execute_single_task ex t) = COMPLETED}
      = {t \<in> set (tasks s). is_ready (completed_tasks s) t
                                       \<and> status (execute_single_task ex t) = COMPLETED}"
    by auto
  then show "completed_tasks (wave_step ex s)
     = completed_tasks s \<union> task_id ` {t \<in> set (tasks s). is_ready (completed_tasks s) t
                                       \<and> status (execute_single_task ex t) = COMPLETED}"
    by (simp add: wave_step_def Let_def finished_ids del: set_map set_filter)
qed


lemma map_filter_cong2:
  "map f xs = map f ys \<Longrightarrow> map g xs = map g ys \<Longrightarrow>
     map f (filter (\<lambda>x. P (g x)) xs) = map f (filter (\<lambda>x. P (g x)) ys)"
proof (induction xs arbitrary: ys)
  case Nil
  then show ?case by simp
next
  case (Cons x xs)
  then obtain y ys' where ys: "ys = y # ys'" by (cases ys) auto
  with Cons.prems have "f x = f y" "g x = g y" "map f xs = map f ys'" "map g xs = map g ys'"
    by auto
  with Cons.IH[of ys'] ys show ?case by simp
qed

lemma plan_invariant_initial:
  assumes "\<forall>t \<in> set ts. status t = PENDING"
  shows "plan_invariant ts \<lparr>tasks = ts, completed_tasks = {}, results = Map.empty, waves = []\<rparr>"
  using assms by (auto simp: plan_invariant_def)

lemma wave_step_invariant:
  assumes inv: "plan_invariant ts s" and dis: "distinct (map task_id ts)"
  shows "plan_invariant ts (wave_step ex s)"
proof -
  let ?c = "completed_tasks s" and ?T = "tasks s"
  let ?s' = "wave_step ex s"
  let ?ready = "filter (is_ready ?c) ?T"
  from inv[unfolded plan_invariant_def] have i1: "map task_id ?T = map task_id ts"
    and i2: "map dependencies ?T = map dependencies ts"
    and i3: "\<forall>t \<in> set ?T. status t = PENDING \<or> status t = COMPLETED \<or> status t = FAILED"
    and i4: "?c = task_id ` {t \<in> set ?T. status t = COMPLETED}"
    and i5: "\<forall>t \<in> set ?T. status t \<noteq> PENDING \<longrightarrow> set (dependencies t) \<subseteq> ?c"
    and i6: "\<forall>w \<in> set (waves s). wave_ok (fst w) (snd w)"
    and i7: "\<forall>w \<in> set (waves s). \<forall>t \<in> set ?T. task_id t \<in> set (fst w) \<longrightarrow> status t \<noteq> PENDING"
    and i8: "waves s = [] \<longrightarrow> ?c = {} \<and> (\<forall>t \<in> set ?T. status t = PENDING)"
    and i9: "waves s \<noteq> [] \<longrightarrow>
          fst (hd (waves s)) = map task_id (filter (\<lambda>t. dependencies t = []) ts)"
    by blast+
  have disT: "distinct (map task_id ?T)" using dis i1 by simp
  have T': "tasks ?s' = execute_parallel_tasks ex ?c ?T" by (rule wave_step_fields)
  have c': "completed_tasks ?s' = ?c \<union> task_id ` {t \<in> set ?T. is_ready ?c t
                                       \<and> status (execute_single_task ex t) = COMPLETED}"
    by (rule wave_step_fields)
  have W': "waves ?s' = waves s @ [(map task_id ?ready, ?T)]" by (rule wave_step_fields)
  have mem: "t' \<in> set (tasks ?s') \<longleftrightarrow>
       (t' \<in> set ?T \<and> \<not> is_ready ?c t') \<or> (\<exists>t \<in> set ?T. is_ready ?c t \<and> t' = execute_single_task ex t)"
    for t'
    unfolding T' execute_parallel_tasks_set by auto
  have ready_id: "is_ready ?c t" if "t \<in> set ?T" "task_id t \<in> set (map task_id ?ready)" for t
  proof -
    from that(2) obtain t2 where "t2 \<in> set ?T" "is_ready ?c t2" "task_id t2 = task_id t" by auto
    with same_id_same_task[OF disT that(1) this(1)] show ?thesis by simp
  qed
  have n1: "map task_id (tasks ?s') = map task_id ts"
    unfolding T' using i1 by (simp add: execute_parallel_tasks_ids)
  have n2: "map dependencies (tasks ?s') = map dependencies ts"
    unfolding T' using i2 by (simp add: execute_parallel_tasks_ids)
  have n3: "\<forall>t \<in> set (tasks ?s'). status t = PENDING \<or> status t = COMPLETED \<or> status t = FAILED"
  proof
    fix t' assume "t' \<in> set (tasks ?s')"
    then consider "t' \<in> set ?T" | t where "t' = execute_single_task ex t" using mem by blast
    then show "status t' = PENDING \<or> status t' = COMPLETED \<or> status t' = FAILED"
    proof cases
      case 1
      with i3 show ?thesis by simp
    next
      case 2
      with execute_single_task_fields(3)[of ex t] show ?thesis by auto
    qed
  qed
  have n4: "completed_tasks ?s' = task_id ` {t \<in> set (tasks ?s'). status t = COMPLETED}"
  proof (rule set_eqI)
    fix x
    show "x \<in> completed_tasks ?s' \<longleftrightarrow> x \<in> task_id ` {t \<in> set (tasks ?s'). status t = COMPLETED}"
    proof
      assume "x \<in> completed_tasks ?s'"
      then consider "x \<in> ?c"
        | t where "t \<in> set ?T" "is_ready ?c t" "status (execute_single_task ex t) = COMPLETED"
                  "x = task_id t"
        unfolding c' by auto
      then show "x \<in> task_id ` {t \<in> set (tasks ?s'). status t = COMPLETED}"
      proof cases
        case 1
        with i4 obtain t where t: "t \<in> set ?T" "status t = COMPLETED" "x = task_id t" by auto
        then have "\<not> is_ready ?c t" by (auto dest: is_ready_pending)
        with t have "t \<in> set (tasks ?s')" using mem by blast
        with t show ?thesis by auto
      next
        case 2
        then have "execute_single_task ex t \<in> set (tasks ?s')" using mem by blast
        moreover have "task_id (execute_single_task ex t) = x"
          using 2(4) by (simp add: execute_single_task_fields)
        ultimately show ?thesis using 2(3) by force
      qed
    next
      assume "x \<in> task_id ` {t \<in> set (tasks ?s'). status t = COMPLETED}"
      then obtain t' where t': "t' \<in> set (tasks ?s')" "status t' = COMPLETED" "x = task_id t'"
        by auto
      from t'(1) consider "t' \<in> set ?T"
        | t where "t \<in> set ?T" "is_ready ?c t" "t' = execute_single_task ex t"
        using mem by blast
      then show "x \<in> completed_tasks ?s'"
      proof cases
        case 1
        with t' i4 have "x \<in> ?c" by auto
        then show ?thesis unfolding c' by simp
      next
        case 2
        with t' have "x = task_id t" "status (execute_single_task ex t) = COMPLETED"
          by (simp_all add: execute_single_task_fields)
        with 2 show ?thesis unfolding c' by auto
      qed
    qed
  qed
  have n5: "\<forall>t \<in> set (tasks ?s'). status t \<noteq> PENDING \<longrightarrow>
              set (dependencies t) \<subseteq> completed_tasks ?s'"
  proof (intro ballI impI)
    fix t' assume a: "t' \<in> set (tasks ?s')" "status t' \<noteq> PENDING"
    from a(1) consider "t' \<in> set ?T"
      | t where "t \<in> set ?T" "is_ready ?c t" "t' = execute_single_task ex t"
      using mem by blast
    then have "set (dependencies t') \<subseteq> ?c"
    proof cases
      case 1
      with a(2) i5 show ?thesis by simp
    next
      case 2
      then show ?thesis using is_ready_deps[of ?c t] by (simp add: execute_single_task_fields)
    qed
    then show "set (dependencies t') \<subseteq> completed_tasks ?s'" unfolding c' by auto
  qed
  have new_ok: "wave_ok (map task_id ?ready) ?T"
    unfolding wave_ok_def
  proof (intro ballI impI)
    fix t d assume a: "t \<in> set ?T" "task_id t \<in> set (map task_id ?ready)" "d \<in> set (dependencies t)"
    from ready_id[OF a(1,2)] have "set (dependencies t) \<subseteq> ?c" by (rule is_ready_deps)
    with a(3) have "d \<in> ?c" by auto
    with i4 show "\<exists>u \<in> set ?T. task_id u = d \<and> status u = COMPLETED" by auto
  qed
  have n6: "\<forall>w \<in> set (waves ?s'). wave_ok (fst w) (snd w)"
    unfolding W' using i6 new_ok by simp
  have n7: "\<forall>w \<in> set (waves ?s'). \<forall>t \<in> set (tasks ?s'). task_id t \<in> set (fst w) \<longrightarrow> status t \<noteq> PENDING"
  proof (intro ballI impI)
    fix w t' assume a: "w \<in> set (waves ?s')" "t' \<in> set (tasks ?s')" "task_id t' \<in> set (fst w)"
    from a(2) consider (old) "t' \<in> set ?T" "\<not> is_ready ?c t'"
      | (new) t where "t' = execute_single_task ex t"
      using mem by blast
    then show "status t' \<noteq> PENDING"
    proof cases
      case old
      from a(1) have "w \<in> set (waves s) \<or> w = (map task_id ?ready, ?T)" unfolding W' by auto
      then show ?thesis
      proof
        assume "w \<in> set (waves s)"
        with i7 old(1) a(3) show ?thesis by blast
      next
        assume "w = (map task_id ?ready, ?T)"
        with a(3) have "task_id t' \<in> set (map task_id ?ready)" by simp
        with ready_id[OF old(1)] old(2) show ?thesis by simp
      qed
    next
      case new
      then show ?thesis by (simp add: execute_single_task_not_pending)
    qed
  qed
  have n8: "waves ?s' \<noteq> []" unfolding W' by simp
  have n9: "fst (hd (waves ?s')) = map task_id (filter (\<lambda>t. dependencies t = []) ts)"
  proof (cases "waves s = []")
    case False
    with i9 show ?thesis unfolding W' by simp
  next
    case True
    with i8 have e: "?c = {}" and pend: "\<forall>t \<in> set ?T. status t = PENDING" by auto
    have "?ready = filter (\<lambda>t. dependencies t = []) ?T"
      using pend by (intro filter_cong) (auto simp: e is_ready_empty)
    moreover have "map task_id (filter (\<lambda>t. dependencies t = []) ?T)
                 = map task_id (filter (\<lambda>t. dependencies t = []) ts)"
      using map_filter_cong2[OF i1 i2, of "\<lambda>d. d = []"] by simp
    ultimately show ?thesis unfolding W' using True by simp
  qed
  show ?thesis
    unfolding plan_invariant_def
    using n1 n2 n3 n4 n5 n6 n7 n8 n9 by (intro conjI) simp_all
qed


lemma card_completed_tasks:
  assumes inv: "plan_invariant ts s" and dis: "distinct (map task_id ts)"
  shows "card (completed_tasks s) = length (filter (\<lambda>t. status t = COMPLETED) (tasks s))"
proof -
  let ?done = "filter (\<lambda>t. status t = COMPLETED) (tasks s)"
  from inv[unfolded plan_invariant_def]
  have i1: "map task_id (tasks s) = map task_id ts"
    and i4: "completed_tasks s = task_id ` {t \<in> set (tasks s). status t = COMPLETED}"
    by blast+
  have "distinct (map task_id (tasks s))" using dis i1 by simp
  then have "distinct (map task_id ?done)" by (rule distinct_map_filter)
  then have "card (set (map task_id ?done)) = length (map task_id ?done)" by (rule distinct_card)
  moreover have "set (map task_id ?done) = completed_tasks s" unfolding i4 by auto
  ultimately show ?thesis by simp
qed

lemma all_completed_iff:
  "length (filter (\<lambda>t. status t = COMPLETED) xs) = length xs
     \<longleftrightarrow> (\<forall>t \<in> set xs. status t = COMPLETED)"
proof (induction xs)
  case Nil
  show ?case by simp
next
  case (Cons x xs)
  have "length (filter (\<lambda>t. status t = COMPLETED) xs) \<noteq> Suc (length xs)"
    using length_filter_le[of "\<lambda>t. status t = COMPLETED" xs] by linarith
  with Cons show ?case by (cases "status x = COMPLETED") auto
qed

lemma mark_blocked_tasks:
  "tasks (mark_blocked s)
     = map (\<lambda>t. if status t = PENDING then t\<lparr>status := BLOCKED\<rparr> else t) (tasks s)"
proof (cases "filter (\<lambda>t. status t = PENDING) (tasks s) = []")
  case False
  then show ?thesis by (simp add: mark_blocked_def Let_def)
next
  case True
  then have "\<forall>t \<in> set (tasks s). status t \<noteq> PENDING" by (simp add: filter_empty_conv)
  then have "map (\<lambda>t. if status t = PENDING then t\<lparr>status := BLOCKED\<rparr> else t) (tasks s) = tasks s"
    by (induction "tasks s") (simp_all add: map_idI)
  with True show ?thesis by (simp add: mark_blocked_def Let_def)
qed

lemma mark_blocked_other:
  "completed_tasks (mark_blocked s) = completed_tasks s" "waves (mark_blocked s) = waves s"
  by (simp_all add: mark_blocked_def Let_def)

text \<open>What holds when the loop has ended, in terms of the final state \<open>f\<close>.\<close>

lemma loop_exit_properties:
  assumes inv: "plan_invariant ts s" and dis: "distinct (map task_id ts)"
      and exit: "\<not> card (completed_tasks s) < length (tasks s) \<and> f = s
               \<or> card (completed_tasks s) < length (tasks s)
                 \<and> filter (is_ready (completed_tasks s)) (tasks s) = [] \<and> f = mark_blocked s"
  shows "map task_id (tasks f) = map task_id ts"
    and "map dependencies (tasks f) = map dependencies ts"
    and "\<forall>w \<in> set (waves f). wave_ok (fst w) (snd w)"
    and "(\<exists>t \<in> set ts. dependencies t = []) \<longrightarrow>
           waves f \<noteq> [] \<and> fst (hd (waves f)) = map task_id (filter (\<lambda>t. dependencies t = []) ts)"
    and "\<forall>t \<in> set (tasks f). status t = COMPLETED \<or> status t = FAILED \<or> status t = BLOCKED"
    and "\<forall>t \<in> set (tasks f). \<forall>u \<in> set (tasks f).
           task_id u \<in> set (dependencies t) \<and> status u \<noteq> COMPLETED \<longrightarrow> status t = BLOCKED"
    and "\<forall>t \<in> set (tasks f). status t = BLOCKED \<longrightarrow> (\<forall>w \<in> set (waves f). task_id t \<notin> set (fst w))"
    and "card (completed_tasks f) = length ts \<longleftrightarrow> (\<forall>t \<in> set (tasks f). status t = COMPLETED)"
proof -
  let ?c = "completed_tasks s" and ?T = "tasks s"
  define blk where "blk = (\<lambda>t :: ('a, 'b) ExecutionTask.
      if status t = PENDING then t\<lparr>status := BLOCKED\<rparr> else t)"
  from inv[unfolded plan_invariant_def] have i1: "map task_id ?T = map task_id ts"
    and i2: "map dependencies ?T = map dependencies ts"
    and i3: "\<forall>t \<in> set ?T. status t = PENDING \<or> status t = COMPLETED \<or> status t = FAILED"
    and i4: "?c = task_id ` {t \<in> set ?T. status t = COMPLETED}"
    and i5: "\<forall>t \<in> set ?T. status t \<noteq> PENDING \<longrightarrow> set (dependencies t) \<subseteq> ?c"
    and i6: "\<forall>w \<in> set (waves s). wave_ok (fst w) (snd w)"
    and i7: "\<forall>w \<in> set (waves s). \<forall>t \<in> set ?T. task_id t \<in> set (fst w) \<longrightarrow> status t \<noteq> PENDING"
    and i8: "waves s = [] \<longrightarrow> ?c = {} \<and> (\<forall>t \<in> set ?T. status t = PENDING)"
    and i9: "waves s \<noteq> [] \<longrightarrow>
          fst (hd (waves s)) = map task_id (filter (\<lambda>t. dependencies t = []) ts)"
    by blast+
  have disT: "distinct (map task_id ?T)" using dis i1 by simp
  have len: "length ?T = length ts" using i1 by (metis length_map)
  have card: "card ?c = length (filter (\<lambda>t. status t = COMPLETED) ?T)"
    using inv dis by (rule card_completed_tasks)
  have wf: "waves f = waves s" and cf: "completed_tasks f = ?c"
    using exit by (auto simp: mark_blocked_other)
  have tf: "tasks f = map blk ?T \<or> tasks f = ?T \<and> (\<forall>t \<in> set ?T. status t = COMPLETED)"
  proof -
    from exit show ?thesis
    proof
      assume a: "\<not> card ?c < length ?T \<and> f = s"
      have "length (filter (\<lambda>t. status t = COMPLETED) ?T) \<le> length ?T" by simp
      with a card have "length (filter (\<lambda>t. status t = COMPLETED) ?T) = length ?T" by linarith
      then have "\<forall>t \<in> set ?T. status t = COMPLETED" by (simp add: all_completed_iff)
      with a show ?thesis by simp
    next
      assume "card ?c < length ?T \<and> filter (is_ready ?c) ?T = [] \<and> f = mark_blocked s"
      then show ?thesis by (simp add: mark_blocked_tasks blk_def)
    qed
  qed
  have blk_fields: "task_id (blk t) = task_id t" "dependencies (blk t) = dependencies t"
      "status (blk t) = COMPLETED \<longleftrightarrow> status t = COMPLETED"
      "status (blk t) = BLOCKED \<longleftrightarrow> status t = PENDING \<or> status t = BLOCKED" for t
    by (simp_all add: blk_def)
  have mapblk: "map task_id (map blk ?T) = map task_id ?T"
               "map dependencies (map blk ?T) = map dependencies ?T"
    by (simp_all add: blk_fields)
  show "map task_id (tasks f) = map task_id ts" using tf i1 mapblk(1) by auto
  show "map dependencies (tasks f) = map dependencies ts" using tf i2 mapblk(2) by auto
  show "\<forall>w \<in> set (waves f). wave_ok (fst w) (snd w)" using i6 wf by simp
  have no_ready: "waves s \<noteq> []" if "\<exists>t \<in> set ts. dependencies t = []"
  proof
    assume w: "waves s = []"
    with i8 have e: "?c = {}" and pend: "\<forall>t \<in> set ?T. status t = PENDING" by auto
    from that have "[] \<in> set (map dependencies ts)" by force
    then have "[] \<in> set (map dependencies ?T)" using i2 by simp
    then obtain t where t: "t \<in> set ?T" "dependencies t = []" by auto
    with pend have r: "is_ready ?c t" by (simp add: e is_ready_empty)
    with t have ne: "filter (is_ready ?c) ?T \<noteq> []" by (auto simp: filter_empty_conv)
    have "card ?c < length ?T" using e t(1) by (cases ?T) auto
    with exit ne show False by auto
  qed
  show "(\<exists>t \<in> set ts. dependencies t = []) \<longrightarrow>
           waves f \<noteq> [] \<and> fst (hd (waves f)) = map task_id (filter (\<lambda>t. dependencies t = []) ts)"
    using no_ready i9 wf by auto
  show "\<forall>t \<in> set (tasks f). status t = COMPLETED \<or> status t = FAILED \<or> status t = BLOCKED"
  proof
    fix t assume "t \<in> set (tasks f)"
    with tf consider u where "u \<in> set ?T" "t = blk u" | "status t = COMPLETED" by auto
    then show "status t = COMPLETED \<or> status t = FAILED \<or> status t = BLOCKED"
    proof cases
      case 1
      with i3 have "status u = PENDING \<or> status u = COMPLETED \<or> status u = FAILED" by simp
      then show ?thesis unfolding 1(2) by (auto simp: blk_def)
    next
      case 2
      then show ?thesis by simp
    qed
  qed
  show "\<forall>t \<in> set (tasks f). \<forall>u \<in> set (tasks f).
           task_id u \<in> set (dependencies t) \<and> status u \<noteq> COMPLETED \<longrightarrow> status t = BLOCKED"
  proof (intro ballI impI)
    fix t u assume a: "t \<in> set (tasks f)" "u \<in> set (tasks f)"
      "task_id u \<in> set (dependencies t) \<and> status u \<noteq> COMPLETED"
    from tf a(2,3) have tfm: "tasks f = map blk ?T" by auto
    with a obtain t0 u0 where t0: "t0 \<in> set ?T" "t = blk t0" and u0: "u0 \<in> set ?T" "u = blk u0"
      by auto
    have u0n: "status u0 \<noteq> COMPLETED" using a(3) u0(2) blk_fields(3)[of u0] by simp
    have dep: "task_id u0 \<in> set (dependencies t0)"
      using a(3) t0(2) u0(2) by (simp add: blk_fields)
    have "status t0 = PENDING"
    proof (rule ccontr)
      assume "status t0 \<noteq> PENDING"
      with i5 t0(1) dep have "task_id u0 \<in> ?c" by auto
      with i4 obtain u1 where u1: "u1 \<in> set ?T" "status u1 = COMPLETED" "task_id u1 = task_id u0"
        by auto
      from same_id_same_task[OF disT u1(1) u0(1) u1(3)] u1(2) u0n show False by simp
    qed
    then show "status t = BLOCKED" using t0(2) by (simp add: blk_fields)
  qed
  show "\<forall>t \<in> set (tasks f). status t = BLOCKED \<longrightarrow> (\<forall>w \<in> set (waves f). task_id t \<notin> set (fst w))"
  proof (intro ballI impI)
    fix t w assume a: "t \<in> set (tasks f)" "status t = BLOCKED" "w \<in> set (waves f)"
    from tf a(1,2) have "tasks f = map blk ?T" by auto
    with a(1) obtain t0 where t0: "t0 \<in> set ?T" "t = blk t0" by auto
    from a(2) t0(2) have "status t0 = PENDING \<or> status t0 = BLOCKED" by (simp add: blk_fields)
    moreover from i3 t0(1) have "status t0 \<noteq> BLOCKED" by auto
    ultimately have "status t0 = PENDING" by simp
    with i7 a(3) wf t0(1) have "task_id t0 \<notin> set (fst w)" by auto
    then show "task_id t \<notin> set (fst w)" using t0(2) by (simp add: blk_fields)
  qed
  show "card (completed_tasks f) = length ts \<longleftrightarrow> (\<forall>t \<in> set (tasks f). status t = COMPLETED)"
  proof -
    have "card ?c = length ts \<longleftrightarrow> (\<forall>t \<in> set ?T. status t = COMPLETED)"
      using card len all_completed_iff[of ?T] by simp
    moreover have "(\<forall>t \<in> set (tasks f). status t = COMPLETED) \<longleftrightarrow> (\<forall>t \<in> set ?T. status t = COMPLETED)"
    proof -
      from tf show ?thesis
      proof
        assume m: "tasks f = map blk ?T"
        show ?thesis unfolding m by (simp add: blk_fields)
      next
        assume "tasks f = ?T \<and> (\<forall>t \<in> set ?T. status t = COMPLETED)"
        then show ?thesis by simp
      qed
    qed
    ultimately show ?thesis using cf by simp
  qed
qed


lemma wave_loop_exit:
  "plan_invariant ts s \<Longrightarrow> distinct (map task_id ts) \<Longrightarrow>
   \<exists>s'. plan_invariant ts s'
      \<and> (\<not> card (completed_tasks s') < length (tasks s') \<and> wave_loop ex s = s'
         \<or> card (completed_tasks s') < length (tasks s')
           \<and> filter (is_ready (completed_tasks s')) (tasks s') = []
           \<and> wave_loop ex s = mark_blocked s')"
proof (induction ex s rule: wave_loop.induct)
  case (1 ex s)
  show ?case
  proof (cases "card (completed_tasks s) < length (tasks s)")
    case False
    then have "wave_loop ex s = s" by (subst wave_loop.simps) simp
    with False "1.prems"(1) show ?thesis by blast
  next
    case True
    show ?thesis
    proof (cases "filter (is_ready (completed_tasks s)) (tasks s) = []")
      case e: True
      with True have "wave_loop ex s = mark_blocked s" by (subst wave_loop.simps) simp
      with True e "1.prems"(1) show ?thesis by blast
    next
      case ne: False
      with True have unfold: "wave_loop ex s = wave_loop ex (wave_step ex s)"
        by (subst wave_loop.simps) simp
      have "plan_invariant ts (wave_step ex s)"
        using "1.prems" by (rule wave_step_invariant)
      from "1.IH"[OF True ne this "1.prems"(2)] show ?thesis unfolding unfold .
    qed
  qed
qed

lemma downstream_blocked:
  assumes one_step: "\<forall>t \<in> set fs. \<forall>u \<in> set fs.
           task_id u \<in> set (dependencies t) \<and> status u \<noteq> COMPLETED \<longrightarrow> status t = BLOCKED"
  shows "downstream_of_failure fs t \<Longrightarrow> t \<in> set fs \<Longrightarrow> status t = BLOCKED"
proof (induction rule: downstream_of_failure.induct)
  case (direct u t)
  from direct.hyps have "status u \<noteq> COMPLETED" by simp
  with one_step direct.hyps direct.prems show ?case by blast
next
  case (transitive u t)
  from transitive.IH transitive.hyps have "status u \<noteq> COMPLETED" by simp
  with one_step transitive.hyps transitive.prems show ?case by blast
qed

text \<open>
  C5. For a plan of fresh (pending) tasks with distinct ids, \<open>execute_plan\<close> keeps every
  task, with its id and dependencies. In every wave it runs, each dependency of each task
  of the wave is the id of a task that was completed when the wave started. The first
  wave consists of exactly the tasks without dependencies. At the end every task is
  completed, failed or blocked; a task downstream of a failure, directly or through other
  tasks, is blocked and was part of no wave; and \<open>success\<close> is true exactly when every
  task is completed.
\<close>

theorem execute_plan_follows_dependencies:
  assumes "distinct (map task_id ts)" and "\<forall>t \<in> set ts. status t = PENDING"
  shows "map task_id (final_tasks (execute_plan ex ts)) = map task_id ts
     \<and> map dependencies (final_tasks (execute_plan ex ts)) = map dependencies ts
     \<and> (\<forall>w \<in> set (wave_record (execute_plan ex ts)). \<forall>t \<in> set (snd w).
            task_id t \<in> set (fst w) \<longrightarrow>
              (\<forall>d \<in> set (dependencies t). \<exists>u \<in> set (snd w). task_id u = d \<and> status u = COMPLETED))
     \<and> ((\<exists>t \<in> set ts. dependencies t = []) \<longrightarrow>
            wave_record (execute_plan ex ts) \<noteq> []
            \<and> fst (hd (wave_record (execute_plan ex ts)))
                = map task_id (filter (\<lambda>t. dependencies t = []) ts))
     \<and> (\<forall>t \<in> set (final_tasks (execute_plan ex ts)).
            status t = COMPLETED \<or> status t = FAILED \<or> status t = BLOCKED)
     \<and> (\<forall>t \<in> set (final_tasks (execute_plan ex ts)).
            downstream_of_failure (final_tasks (execute_plan ex ts)) t \<longrightarrow>
              status t = BLOCKED
              \<and> (\<forall>w \<in> set (wave_record (execute_plan ex ts)). task_id t \<notin> set (fst w)))
     \<and> (success (execute_plan ex ts)
          \<longleftrightarrow> (\<forall>t \<in> set (final_tasks (execute_plan ex ts)). status t = COMPLETED))"
proof -
  define f where "f = wave_loop ex \<lparr>tasks = ts, completed_tasks = {}, results = Map.empty, waves = []\<rparr>"
  have R: "final_tasks (execute_plan ex ts) = tasks f"
          "wave_record (execute_plan ex ts) = waves f"
          "success (execute_plan ex ts) = (card (completed_tasks f) = length ts)"
    unfolding execute_plan_def Let_def f_def by (simp_all only: plan_result.select_convs)
  have "plan_invariant ts \<lparr>tasks = ts, completed_tasks = {}, results = Map.empty, waves = []\<rparr>"
    using assms(2) by (rule plan_invariant_initial)
  from wave_loop_exit[OF this assms(1), of ex] obtain s' where s':
    "plan_invariant ts s'"
    "\<not> card (completed_tasks s') < length (tasks s') \<and> f = s'
       \<or> card (completed_tasks s') < length (tasks s')
         \<and> filter (is_ready (completed_tasks s')) (tasks s') = [] \<and> f = mark_blocked s'"
    unfolding f_def by blast
  note P = loop_exit_properties[OF s'(1) assms(1) s'(2)]
  have blocked: "status t = BLOCKED \<and> (\<forall>w \<in> set (waves f). task_id t \<notin> set (fst w))"
    if "t \<in> set (tasks f)" "downstream_of_failure (tasks f) t" for t
  proof -
    from downstream_blocked[OF P(6) that(2) that(1)] have "status t = BLOCKED" .
    with P(7) that(1) show ?thesis by blast
  qed
  have w: "\<forall>w \<in> set (waves f). \<forall>t \<in> set (snd w).
            task_id t \<in> set (fst w) \<longrightarrow>
              (\<forall>d \<in> set (dependencies t). \<exists>u \<in> set (snd w). task_id u = d \<and> status u = COMPLETED)"
  proof
    fix w assume "w \<in> set (waves f)"
    with P(3) have "wave_ok (fst w) (snd w)" by simp
    then show "\<forall>t \<in> set (snd w). task_id t \<in> set (fst w) \<longrightarrow>
              (\<forall>d \<in> set (dependencies t). \<exists>u \<in> set (snd w). task_id u = d \<and> status u = COMPLETED)"
      unfolding wave_ok_def .
  qed
  have b: "\<forall>t \<in> set (tasks f). downstream_of_failure (tasks f) t \<longrightarrow>
              status t = BLOCKED \<and> (\<forall>w \<in> set (waves f). task_id t \<notin> set (fst w))"
    using blocked by blast
  show ?thesis
    unfolding R
    apply (rule conjI, rule P(1))
    apply (rule conjI, rule P(2))
    apply (rule conjI, rule w)
    apply (rule conjI, rule P(4))
    apply (rule conjI, rule P(5))
    apply (rule conjI, rule b)
    apply (rule P(8))
    done
qed

lemma abc_plan_runs:
  "map (\<lambda>t. (task_id t, status t)) (final_tasks (execute_plan a_fails abc_plan))
     = [(''A'', FAILED), (''B'', COMPLETED), (''C'', BLOCKED)]
 \<and> map fst (wave_record (execute_plan a_fails abc_plan)) = [[''A'', ''B'']]
 \<and> \<not> success (execute_plan a_fails abc_plan)
 \<and> map (\<lambda>t. (task_id t, status t)) (final_tasks (execute_plan all_succeed abc_plan))
     = [(''A'', COMPLETED), (''B'', COMPLETED), (''C'', COMPLETED)]
 \<and> map fst (wave_record (execute_plan all_succeed abc_plan)) = [[''A'', ''B''], [''C'']]
 \<and> success (execute_plan all_succeed abc_plan)"
  by code_simp

theorem execute_plan_follows_dependencies_witness:
  "distinct (map task_id abc_plan) \<and> map status abc_plan = [PENDING, PENDING, PENDING]
 \<and> map (\<lambda>t. (task_id t, status t)) (final_tasks (execute_plan a_fails abc_plan))
     = [(''A'', FAILED), (''B'', COMPLETED), (''C'', BLOCKED)]
 \<and> fst (hd (wave_record (execute_plan a_fails abc_plan))) = [''A'', ''B'']
 \<and> \<not> success (execute_plan a_fails abc_plan)
 \<and> fst (hd (wave_record (execute_plan all_succeed abc_plan))) = [''A'', ''B'']
 \<and> success (execute_plan all_succeed abc_plan)"
proof -
  have h1: "distinct (map task_id abc_plan)" by (simp add: abc_plan_def new_task_def)
  have h2: "\<forall>t \<in> set abc_plan. status t = PENDING" by (simp add: abc_plan_def new_task_def)
  have d: "filter (\<lambda>t. dependencies t = []) abc_plan
             = [new_task ''A'' ''search_emails'' () [], new_task ''B'' ''search_calendar'' () []]"
    by (simp add: abc_plan_def new_task_def)
  have e: "\<exists>t \<in> set abc_plan. dependencies t = []" by (simp add: abc_plan_def new_task_def)
  from execute_plan_follows_dependencies[OF h1 h2, of a_fails]
       execute_plan_follows_dependencies[OF h1 h2, of all_succeed] e
  have "fst (hd (wave_record (execute_plan a_fails abc_plan))) = [''A'', ''B'']"
       "fst (hd (wave_record (execute_plan all_succeed abc_plan))) = [''A'', ''B'']"
    by (simp_all add: d new_task_def)
  moreover have "map status abc_plan = [PENDING, PENDING, PENDING]"
    by (simp add: abc_plan_def new_task_def)
  ultimately show ?thesis using h1 abc_plan_runs by simp
qed


end
